theory Spec2Isabelle
  imports Complex_Main "HOL-Library.Word" "HOL-Library.Signed_Division" "HOL-Library.Log_Nat"
begin

section \<open>The typing trainer's driver (tt.go)\<close>

text \<open>
  The repository's driver is the function \<open>main\<close> of \<open>tt.go\<close> with its helpers
  \<open>readConfig\<close>, \<open>exit\<close> and \<open>showReport\<close>. The typing engine (\<open>NewTyper\<close>,
  \<open>typer.Start\<close>), the theme table, \<open>wordWrap\<close>, \<open>randomText\<close> and \<open>newTcellColor\<close> live in
  other files: the driver is modelled over them as parameters, and the engine is also
  modelled from the specification where a property is about the engine itself.
\<close>

subsection \<open>Machine types\<close>

text \<open>
  Go's \<open>int\<close> is taken at 64 bits (the amd64 and arm64 ports); \<open>time.Duration\<close> is an
  \<open>int64\<close> of nanoseconds, \<open>tcell.Key\<close> an \<open>int16\<close> and \<open>tcell.Color\<close> an \<open>int32\<close>.
\<close>

type_synonym goint = "64 word"
type_synonym duration = "64 word"
type_synonym key = "16 word"
type_synonym color = "32 word"

text \<open>Go's \<open>/\<close> on integers truncates towards zero.\<close>

definition int_quo :: "goint \<Rightarrow> goint \<Rightarrow> goint" where
  "int_quo a b = word_of_int (sint a sdiv sint b)"

subsection \<open>float64\<close>

text \<open>
  An IEEE 754 double is a sign and a magnitude, an infinity with its sign, or NaN.
  Finite results are rounded to 53 significant bits, ties to even. The exponent range is
  not modelled: the quotients and products of this program, of \<open>int64\<close> values and the
  constants \<open>60E9\<close> and \<open>100\<close>, lie between \<open>2^-70\<close> and \<open>2^110\<close> when they are not zero,
  far from overflow and from the subnormal numbers.
\<close>

datatype float64 = Finite bool rat | Infinity bool | NaN

definition ilog2 :: "rat \<Rightarrow> int" where
  "ilog2 a = (let (p, q) = quotient_of a;
                  d = bitlen p - bitlen q
              in if 2 powi d \<le> a then d else d - 1)"

definition round_even :: "rat \<Rightarrow> int" where
  "round_even x = (let f = \<lfloor>x\<rfloor>; r = x - of_int f
                   in if r < 1 / 2 then f
                      else if 1 / 2 < r then f + 1
                      else if even f then f else f + 1)"

definition round_f64 :: "rat \<Rightarrow> rat" where
  "round_f64 a = (if a \<le> 0 then 0
                  else let u = 2 powi (ilog2 a - 52)
                       in of_int (round_even (a / u)) * u)"

text \<open>The conversion \<open>float64(i)\<close> of an integer.\<close>

definition f64_of_int :: "goint \<Rightarrow> float64" where
  "f64_of_int i = Finite (sint i < 0) (round_f64 (of_int \<bar>sint i\<bar>))"

fun f64_div :: "float64 \<Rightarrow> float64 \<Rightarrow> float64" where
  "f64_div NaN y = NaN"
| "f64_div (Infinity s) NaN = NaN"
| "f64_div (Finite s a) NaN = NaN"
| "f64_div (Infinity s) (Infinity s') = NaN"
| "f64_div (Infinity s) (Finite s' b) = Infinity (s \<noteq> s')"
| "f64_div (Finite s a) (Infinity s') = Finite (s \<noteq> s') 0"
| "f64_div (Finite s a) (Finite s' b) =
     (if b = 0 then (if a = 0 then NaN else Infinity (s \<noteq> s'))
      else Finite (s \<noteq> s') (round_f64 (a / b)))"

fun f64_mul :: "float64 \<Rightarrow> float64 \<Rightarrow> float64" where
  "f64_mul NaN y = NaN"
| "f64_mul (Infinity s) NaN = NaN"
| "f64_mul (Finite s a) NaN = NaN"
| "f64_mul (Infinity s) (Infinity s') = Infinity (s \<noteq> s')"
| "f64_mul (Infinity s) (Finite s' b) = (if b = 0 then NaN else Infinity (s \<noteq> s'))"
| "f64_mul (Finite s a) (Infinity s') = (if a = 0 then NaN else Infinity (s \<noteq> s'))"
| "f64_mul (Finite s a) (Finite s' b) = Finite (s \<noteq> s') (round_f64 (a * b))"

text \<open>
  The conversion \<open>int(x)\<close> drops the fraction. Where the value does not fit the integer
  type, Go leaves the result to the implementation: \<open>indef\<close> stands for that choice.
\<close>

definition f64_to_int :: "(float64 \<Rightarrow> goint) \<Rightarrow> float64 \<Rightarrow> goint" where
  "f64_to_int indef x =
     (case x of
        Finite s a \<Rightarrow>
          (let v = (if s then - \<lfloor>a\<rfloor> else \<lfloor>a\<rfloor>)
           in if - (2 ^ 63) \<le> v \<and> v < 2 ^ 63 then word_of_int v else indef x)
      | Infinity s \<Rightarrow> indef x
      | NaN \<Rightarrow> indef x)"

definition f64_60E9 :: float64 where
  "f64_60E9 = Finite False 60000000000"

definition f64_100 :: float64 where
  "f64_100 = Finite False 100"

subsection \<open>fmt: the verbs \<open>%d\<close> and \<open>%.2f\<close>\<close>

definition digit :: "int \<Rightarrow> char" where
  "digit d = char_of (48 + d)"

function digits :: "int \<Rightarrow> string" where
  "digits k = (if k < 10 then [digit k] else digits (k div 10) @ [digit (k mod 10)])"
  by pat_completeness auto
termination
  by (relation "measure nat") auto

declare digits.simps [simp del]

definition fmt_d :: "goint \<Rightarrow> string" where
  "fmt_d i = (if sint i < 0 then CHR ''-'' # digits (- sint i) else digits (sint i))"

text \<open>
  \<open>%.2f\<close> prints the value rounded to two decimals, ties to even, with the sign of the
  sign bit; an infinity and NaN print as words.
\<close>

definition fmt_f2 :: "float64 \<Rightarrow> string" where
  "fmt_f2 x =
     (case x of
        Finite s a \<Rightarrow>
          (let k = round_even (a * 100)
           in (if s then ''-'' else []) @ digits (k div 100) @ ''.'' @
              [digit (k mod 100 div 10), digit (k mod 10)])
      | Infinity s \<Rightarrow> (if s then ''-Inf'' else ''+Inf'')
      | NaN \<Rightarrow> ''NaN'')"

subsection \<open>Results, events and the collaborators\<close>

record result =
  wpm :: goint
  cpm :: goint
  accuracy :: float64

text \<open>
  A terminal event as \<open>scr.PollEvent\<close> delivers it: a key event with its key code and
  rune, or another event (a resize). \<open>delay\<close> is the time in nanoseconds that passes
  before the event arrives, counted from the event before it.
\<close>

datatype event = EventKey duration key char | EventOther duration

text \<open>The two key codes the driver tests, from tcell's key table.\<close>

definition KeyCtrlC :: key where
  "KeyCtrlC = 3"

definition KeyEscape :: key where
  "KeyEscape = 27"

record palette =
  bgcol :: color
  fgcol :: color
  hicol :: color
  hicol2 :: color
  hicol3 :: color
  errcol :: color

record typer =
  SkipWord :: bool
  colors :: palette

text \<open>
  What \<open>typer.Start\<close> returns: \<open>(nerrs, ncorrect, t, exitKey)\<close>.
\<close>

type_synonym outcome = "goint \<times> goint \<times> duration \<times> key"

text \<open>
  The collaborators \<open>main\<close> calls. \<open>Start\<close> reads the pending terminal events and
  returns its tuple with the events it left, or \<open>None\<close> when it waits for a key that never
  comes. \<open>randomText\<close> draws from a generator state of type \<open>'g\<close>. \<open>themes\<close> is the
  table of themes, a Go map from a theme's name to its map from a colour's name to the
  colour's text, and \<open>theme_order\<close> the order in which a \<open>range\<close> over the table meets
  the names (Go leaves it open). \<open>newTcellColor\<close> reads a colour's text.
\<close>

record 'g extern =
  Start :: "typer \<Rightarrow> string list \<Rightarrow> duration \<Rightarrow> event list \<Rightarrow> (outcome \<times> event list) option"
  randomText :: "goint \<Rightarrow> goint \<Rightarrow> 'g \<Rightarrow> string \<times> 'g"
  wordWrap :: "string \<Rightarrow> goint \<Rightarrow> string"
  indefinite :: "float64 \<Rightarrow> goint"
  themes :: "string \<rightharpoonup> (string \<rightharpoonup> string)"
  theme_order :: "string list"
  newTcellColor :: "string \<Rightarrow> color"

subsection \<open>Command-line flags\<close>

text \<open>
  The variables \<open>flag.Parse\<close> fills, one field per flag: \<open>-n\<close>, \<open>-w\<close>, \<open>-t\<close>,
  \<open>-noskip\<close>, \<open>-csv\<close>, \<open>-raw\<close>, \<open>-o\<close>, \<open>-theme\<close> and \<open>-list\<close>. A flag that is not
  given keeps its default.
\<close>

record flags =
  flag_n :: goint
  flag_w :: goint
  flag_t :: goint
  flag_noskip :: bool
  flag_csv :: bool
  flag_raw :: bool
  flag_o :: bool
  flag_theme :: string
  flag_list :: string

definition default_flags :: flags where
  "default_flags =
     \<lparr>flag_n = 50, flag_w = 80, flag_t = - 1, flag_noskip = False, flag_csv = False,
      flag_raw = False, flag_o = False, flag_theme = [], flag_list = []\<rparr>"

subsection \<open>What the program does, as a trace\<close>

text \<open>
  The driver's effects in the order they happen: a call of \<open>typer.Start\<close> with its
  arguments, the report drawn on the screen, \<open>scr.Fini\<close>, a line written to stdout and
  a line written to stderr.
\<close>

datatype action =
  CallStart typer "string list" duration
| Draw string
| Fini
| Stdout string
| Stderr string

text \<open>
  How a part of the program ends: it goes on with the next statement, the process exits
  with a status, it panics, or it waits for an event that never comes.
\<close>

datatype status = Continue | Exited int | Panicked | Blocked

record 'g dstate =
  results :: "result list"
  trace :: "action list"
  pending :: "event list"
  rng :: 'g

definition NL :: char where
  "NL = CHR 0x0A"

definition csv_line :: "result \<Rightarrow> string" where
  "csv_line r = fmt_d (wpm r) @ '','' @ fmt_d (cpm r) @ '','' @ fmt_f2 (accuracy r) @ [NL]"

definition exit :: "bool \<Rightarrow> 'g dstate \<Rightarrow> status \<times> 'g dstate" where
  "exit csvMode s =
     (Exited 0,
      s\<lparr>trace := trace s @ [Fini] @
                   (if csvMode then map (\<lambda>r. Stdout (csv_line r)) (results s) else [])\<rparr>)"

definition report_text :: "goint \<Rightarrow> goint \<Rightarrow> float64 \<Rightarrow> string" where
  "report_text c w a =
     ''WPM: '' @ fmt_d w @ [NL] @ ''CPM: '' @ fmt_d c @ [NL] @ ''Accuracy: '' @ fmt_f2 a @ ''%''"

text \<open>The polling loop of \<open>showReport\<close>: Escape returns, Ctrl-C exits.\<close>

fun showReport_poll :: "bool \<Rightarrow> 'g dstate \<Rightarrow> event list \<Rightarrow> status \<times> 'g dstate" where
  "showReport_poll csvMode s [] = (Blocked, s\<lparr>pending := []\<rparr>)"
| "showReport_poll csvMode s (EventKey d k r # es) =
     (if k = KeyEscape then (Continue, s\<lparr>pending := es\<rparr>)
      else if k = KeyCtrlC then exit csvMode (s\<lparr>pending := es\<rparr>)
      else showReport_poll csvMode s es)"
| "showReport_poll csvMode s (EventOther d # es) = showReport_poll csvMode s es"

definition showReport :: "bool \<Rightarrow> goint \<Rightarrow> goint \<Rightarrow> float64 \<Rightarrow> 'g dstate \<Rightarrow> status \<times> 'g dstate" where
  "showReport csvMode c w a s =
     showReport_poll csvMode (s\<lparr>trace := trace s @ [Draw (report_text c w a)]\<rparr>) (pending s)"

text \<open>
  \<open>contentFn\<close> is one of three closures: the piped text (whole, or cut into
  paragraphs), or a fresh random text on every call.
\<close>

datatype content_fn = Fixed "string list" | RandomText goint goint

definition contentFn :: "'g extern \<Rightarrow> content_fn \<Rightarrow> 'g \<Rightarrow> string list \<times> 'g" where
  "contentFn ext cf g =
     (case cf of
        Fixed content \<Rightarrow> (content, g)
      | RandomText k w \<Rightarrow> (let (txt, g') = randomText ext k w g in ([txt], g')))"

text \<open>One turn of the \<open>for\<close> loop of \<open>main\<close>.\<close>

definition main_iter ::
  "'g extern \<Rightarrow> flags \<Rightarrow> typer \<Rightarrow> content_fn \<Rightarrow> duration \<Rightarrow> 'g dstate \<Rightarrow> status \<times> 'g dstate" where
  "main_iter ext fl ty cf timeout s =
     (let (content, g') = contentFn ext cf (rng s);
          s1 = s\<lparr>rng := g', trace := trace s @ [CallStart ty content timeout]\<rparr>
      in case Start ext ty content timeout (pending s1) of
           None \<Rightarrow> (Blocked, s1)
         | Some ((nerrs, ncorrect, t, exitKey), es) \<Rightarrow>
             (let s2 = s1\<lparr>pending := es\<rparr>
              in if exitKey = 0 then
                   (let c = f64_to_int (indefinite ext)
                              (f64_div (f64_of_int ncorrect) (f64_div (f64_of_int t) f64_60E9));
                        w = int_quo c 5;
                        a = f64_mul (f64_div (f64_of_int ncorrect) (f64_of_int (nerrs + ncorrect)))
                              f64_100;
                        s3 = s2\<lparr>results := results s2 @ [\<lparr>wpm = w, cpm = c, accuracy = a\<rparr>]\<rparr>
                    in if flag_o fl then exit (flag_csv fl) s3
                       else showReport (flag_csv fl) c w a s3)
                 else if exitKey = KeyCtrlC then exit (flag_csv fl) s2
                 else (Continue, s2)))"

text \<open>
  The loop runs until the process exits or waits for ever; \<open>fuel\<close> bounds the number of
  turns, and a loop that is still running when the fuel is spent ends with \<open>Continue\<close>.
\<close>

fun main_loop ::
  "'g extern \<Rightarrow> flags \<Rightarrow> typer \<Rightarrow> content_fn \<Rightarrow> duration \<Rightarrow> nat \<Rightarrow> 'g dstate \<Rightarrow> status \<times> 'g dstate" where
  "main_loop ext fl ty cf timeout 0 s = (Continue, s)"
| "main_loop ext fl ty cf timeout (Suc k) s =
     (case main_iter ext fl ty cf timeout s of
        (Continue, s') \<Rightarrow> main_loop ext fl ty cf timeout k s'
      | (Exited c, s') \<Rightarrow> (Exited c, s')
      | (Panicked, s') \<Rightarrow> (Panicked, s')
      | (Blocked, s') \<Rightarrow> (Blocked, s'))"

text \<open>
  Modelled from the spec: \<open>NewTyper\<close> is in a file that is not among the sources. The
  specification gives the engine's configuration: \<open>SkipWord\<close> is a boolean that defaults
  to true.
\<close>

definition NewTyper :: "palette \<Rightarrow> typer" where
  "NewTyper cols = \<lparr>SkipWord = True, colors = cols\<rparr>"

text \<open>
  The end of \<open>main\<close>, from the construction of the typer on: \<open>-noskip\<close> clears
  \<open>SkipWord\<close>, a timeout other than \<open>-1\<close> is multiplied by \<open>1E9\<close>, and the loop starts.
\<close>

definition run_tests ::
  "'g extern \<Rightarrow> flags \<Rightarrow> palette \<Rightarrow> content_fn \<Rightarrow> nat \<Rightarrow> 'g dstate \<Rightarrow> status \<times> 'g dstate" where
  "run_tests ext fl cols cf fuel s =
     (let ty = NewTyper cols;
          ty = (if flag_noskip fl then ty\<lparr>SkipWord := False\<rparr> else ty);
          timeout = (if flag_t fl \<noteq> - 1 then flag_t fl * 1000000000 else flag_t fl)
      in main_loop ext fl ty cf timeout fuel s)"

subsection \<open>The string functions of Go's library that \<open>main\<close> and \<open>readConfig\<close> call\<close>

text \<open>
  A Go string is a sequence of bytes, here a list of characters. The functions are
  modelled for a separator, a pattern or a cutset that is not empty, as every call of the
  program has it.
\<close>

definition CR :: char where
  "CR = CHR 0x0D"

definition has_prefix :: "string \<Rightarrow> string \<Rightarrow> bool" where
  "has_prefix s p = (take (length p) s = p)"

text \<open>
  \<open>strings.Split(s, sep)\<close> and \<open>bytes.Split\<close>: the pieces between the occurrences of
  \<open>sep\<close>, found from the left and not overlapping. \<open>piece\<close> holds the bytes of the piece
  read so far.
\<close>

function Split_from :: "string \<Rightarrow> string \<Rightarrow> string \<Rightarrow> string list" where
  "Split_from sep piece [] = [piece]"
| "Split_from sep piece (c # cs) =
     (if sep \<noteq> [] \<and> has_prefix (c # cs) sep
      then piece # Split_from sep [] (drop (length sep) (c # cs))
      else Split_from sep (piece @ [c]) cs)"
  by pat_completeness auto
termination
  by (relation "measure (\<lambda>(sep, piece, s). length s)") auto

definition Split :: "string \<Rightarrow> string \<Rightarrow> string list" where
  "Split s sep = Split_from sep [] s"

text \<open>
  \<open>strings.SplitN(s, sep, 2)\<close>: the string cut at the first occurrence of \<open>sep\<close>, or the
  string alone when \<open>sep\<close> does not occur.
\<close>

fun SplitN2_from :: "string \<Rightarrow> string \<Rightarrow> string \<Rightarrow> string list" where
  "SplitN2_from sep piece [] = [piece]"
| "SplitN2_from sep piece (c # cs) =
     (if sep \<noteq> [] \<and> has_prefix (c # cs) sep
      then [piece, drop (length sep) (c # cs)]
      else SplitN2_from sep (piece @ [c]) cs)"

definition SplitN2 :: "string \<Rightarrow> string \<Rightarrow> string list" where
  "SplitN2 s sep = SplitN2_from sep [] s"

text \<open>\<open>strings.Trim(s, cutset)\<close>: \<open>s\<close> without the leading and trailing bytes of \<open>cutset\<close>.\<close>

definition Trim :: "string \<Rightarrow> string \<Rightarrow> string" where
  "Trim s cutset =
     rev (dropWhile (\<lambda>c. c \<in> set cutset) (rev (dropWhile (\<lambda>c. c \<in> set cutset) s)))"

text \<open>
  \<open>strings.Replace(s, old, new, -1)\<close>: every occurrence of \<open>old\<close>, found from the left and
  not overlapping, replaced by \<open>new\<close>.
\<close>

function Replace :: "string \<Rightarrow> string \<Rightarrow> string \<Rightarrow> string" where
  "Replace [] old new = []"
| "Replace (c # cs) old new =
     (if old \<noteq> [] \<and> has_prefix (c # cs) old
      then new @ Replace (drop (length old) (c # cs)) old new
      else c # Replace cs old new)"
  by pat_completeness auto
termination
  by (relation "measure (\<lambda>(s, old, new). length s)") auto

text \<open>
  \<open>regexp.MustCompile("\n\n+").ReplaceAllString(s, "\n\n")\<close>: every run of two or more
  line breaks, taken as long as it is, becomes two line breaks.
\<close>

function squeeze_breaks :: "string \<Rightarrow> string" where
  "squeeze_breaks [] = []"
| "squeeze_breaks (c # cs) =
     (if c = NL \<and> has_prefix cs [NL]
      then NL # NL # squeeze_breaks (dropWhile (\<lambda>x. x = NL) cs)
      else c # squeeze_breaks cs)"
  by pat_completeness auto
termination
  by (relation "measure length") (auto simp: length_dropWhile_le less_Suc_eq_le)

subsection \<open>The statistics as the specification writes them\<close>

text \<open>
  The specification's formulas, on the tuple a run returns:
  \<open>cpm = ncorrect / (t / 60e9)\<close> cut to an integer, \<open>wpm = cpm / 5\<close> and
  \<open>accuracy = ncorrect / (nerrs + ncorrect) * 100\<close>.
\<close>

definition spec_cpm :: "(float64 \<Rightarrow> goint) \<Rightarrow> goint \<Rightarrow> duration \<Rightarrow> goint" where
  "spec_cpm indef ncorrect t =
     f64_to_int indef (f64_div (f64_of_int ncorrect) (f64_div (f64_of_int t) f64_60E9))"

definition spec_wpm :: "goint \<Rightarrow> goint" where
  "spec_wpm c = int_quo c 5"

definition spec_accuracy :: "goint \<Rightarrow> goint \<Rightarrow> float64" where
  "spec_accuracy nerrs ncorrect =
     f64_mul (f64_div (f64_of_int ncorrect) (f64_of_int (nerrs + ncorrect))) f64_100"

subsection \<open>Reading a trace\<close>

fun stdout_of :: "action list \<Rightarrow> string list" where
  "stdout_of [] = []"
| "stdout_of (Stdout l # acts) = l # stdout_of acts"
| "stdout_of (a # acts) = stdout_of acts"

fun draws_of :: "action list \<Rightarrow> string list" where
  "draws_of [] = []"
| "draws_of (Draw r # acts) = r # draws_of acts"
| "draws_of (a # acts) = draws_of acts"

fun starts_of :: "action list \<Rightarrow> (typer \<times> string list \<times> duration) list" where
  "starts_of [] = []"
| "starts_of (CallStart ty content d # acts) = (ty, content, d) # starts_of acts"
| "starts_of (a # acts) = starts_of acts"

text \<open>
  The key that ends the report screen: the first Escape or Ctrl-C among the pending key
  events, if there is one.
\<close>

fun report_key :: "event list \<Rightarrow> key option" where
  "report_key [] = None"
| "report_key (EventKey d k r # es) =
     (if k = KeyEscape \<or> k = KeyCtrlC then Some k else report_key es)"
| "report_key (EventOther d # es) = report_key es"

text \<open>The shape of a printed number: digits, after an optional minus sign.\<close>

definition is_digit :: "char \<Rightarrow> bool" where
  "is_digit c = (48 \<le> (of_char c :: int) \<and> (of_char c :: int) \<le> 57)"

definition is_number :: "string \<Rightarrow> bool" where
  "is_number s =
     (case s of
        [] \<Rightarrow> False
      | c # cs \<Rightarrow> if c = CHR ''-'' then cs \<noteq> [] \<and> list_all is_digit cs
                 else list_all is_digit (c # cs))"

text \<open>A number with exactly two decimals: a number, a point and two digits.\<close>

definition two_decimals :: "string \<Rightarrow> bool" where
  "two_decimals s =
     (case rev s of
        d2 # d1 # p # ip \<Rightarrow> is_digit d2 \<and> is_digit d1 \<and> p = CHR ''.'' \<and> is_number (rev ip)
      | _ \<Rightarrow> False)"

subsection \<open>A concrete run of the driver\<close>

text \<open>
  The state at the start of \<open>main\<close>, and stand-ins for the collaborators with which
  the driver can be run on concrete inputs: an engine that returns a given tuple at once
  and leaves the pending events alone, a random text that is empty, a word wrap that
  keeps its argument, and \<open>0\<close> for an integer conversion out of range.
\<close>

definition init_state :: "event list \<Rightarrow> 'g \<Rightarrow> 'g dstate" where
  "init_state es g = \<lparr>results = [], trace = [], pending = es, rng = g\<rparr>"

definition const_Start ::
  "outcome \<Rightarrow> typer \<Rightarrow> string list \<Rightarrow> duration \<Rightarrow> event list \<Rightarrow> (outcome \<times> event list) option" where
  "const_Start r ty content timeout es = Some (r, es)"

text \<open>
  A table of two themes, of which \<open>mono\<close> names only two of the six colours, and a
  reading of colours that takes the length of the text.
\<close>

definition sample_themes :: "string \<rightharpoonup> (string \<rightharpoonup> string)" where
  "sample_themes =
     map_of
       [(''default'',
         map_of [(''bgcol'', ''#1''), (''fgcol'', ''#22''), (''hicol'', ''#333''),
                 (''hicol2'', ''#4444''), (''hicol3'', ''#55555''), (''errcol'', ''#666666'')]),
        (''mono'', map_of [(''bgcol'', ''#''), (''fgcol'', ''#7777777'')])]"

definition const_extern :: "outcome \<Rightarrow> unit extern" where
  "const_extern r =
     \<lparr>Start = const_Start r, randomText = (\<lambda>k w g. ([], g)), wordWrap = (\<lambda>s w. s),
      indefinite = (\<lambda>x. 0), themes = sample_themes, theme_order = [''default'', ''mono''],
      newTcellColor = (\<lambda>s. of_nat (length s))\<rparr>"

definition black :: palette where
  "black = \<lparr>bgcol = 0, fgcol = 0, hicol = 0, hicol2 = 0, hicol3 = 0, errcol = 0\<rparr>"

text \<open>The record the specification's formulas give for a returned tuple.\<close>

definition spec_result :: "(float64 \<Rightarrow> goint) \<Rightarrow> goint \<Rightarrow> goint \<Rightarrow> duration \<Rightarrow> result" where
  "spec_result indef nerrs ncorrect t =
     \<lparr>wpm = spec_wpm (spec_cpm indef ncorrect t),
      cpm = spec_cpm indef ncorrect t,
      accuracy = spec_accuracy nerrs ncorrect\<rparr>"

subsection \<open>\<open>readConfig\<close> and the colours\<close>

text \<open>
  \<open>readConfig\<close> reads \<open>$HOME/.ttrc\<close>; \<open>file\<close> is the content of that file, or \<open>None\<close>
  when it cannot be read. Every line with a colon sets the key before the first colon to
  the rest of the line, without the spaces around it; a later line overrides an earlier
  one.
\<close>

definition readConfig_line :: "(string \<rightharpoonup> string) \<Rightarrow> string \<Rightarrow> (string \<rightharpoonup> string)" where
  "readConfig_line cfg line =
     (case SplitN2 line '':'' of
        [k, v] \<Rightarrow> cfg(k \<mapsto> Trim v '' '')
      | _ \<Rightarrow> cfg)"

definition readConfig :: "string option \<Rightarrow> (string \<rightharpoonup> string)" where
  "readConfig file =
     (case file of
        None \<Rightarrow> Map.empty
      | Some b \<Rightarrow> foldl readConfig_line Map.empty (Split b [NL]))"

text \<open>Indexing a Go map of strings: the empty string for a key that is not there.\<close>

definition index_map :: "(string \<rightharpoonup> string) \<Rightarrow> string \<Rightarrow> string" where
  "index_map m k = (case m k of None \<Rightarrow> [] | Some v \<Rightarrow> v)"

definition theme_colors :: "(string \<Rightarrow> color) \<Rightarrow> (string \<rightharpoonup> string) \<Rightarrow> palette" where
  "theme_colors ntc theme =
     \<lparr>bgcol = ntc (index_map theme ''bgcol''),
      fgcol = ntc (index_map theme ''fgcol''),
      hicol = ntc (index_map theme ''hicol''),
      hicol2 = ntc (index_map theme ''hicol2''),
      hicol3 = ntc (index_map theme ''hicol3''),
      errcol = ntc (index_map theme ''errcol'')\<rparr>"

text \<open>
  The colours of \<open>main\<close>: the error message for a \<open>-theme\<close> that names no theme, or the
  six colours. \<open>themes["default"]\<close> is the empty map when the table has no such theme.
\<close>

definition resolve_colors ::
  "(string \<rightharpoonup> (string \<rightharpoonup> string)) \<Rightarrow> (string \<Rightarrow> color) \<Rightarrow> string \<Rightarrow> (string \<rightharpoonup> string) \<Rightarrow>
     string + palette" where
  "resolve_colors ths ntc themeName cfg =
     (if themeName \<noteq> [] then
        (case ths themeName of
           None \<Rightarrow>
             Inl (''ERROR: '' @ themeName @
                  '' is not a valid theme (see -list themes for a list of valid options).'' @ [NL])
         | Some theme \<Rightarrow> Inr (theme_colors ntc theme))
      else
        (let theme = (case ths ''default'' of None \<Rightarrow> Map.empty | Some d \<Rightarrow> d);
             theme = (case cfg ''theme'' of
                        None \<Rightarrow> theme
                      | Some c \<Rightarrow> (case ths c of None \<Rightarrow> theme | Some v \<Rightarrow> v));
             p = theme_colors ntc theme;
             p = (case cfg ''bgcol'' of None \<Rightarrow> p | Some c \<Rightarrow> p\<lparr>bgcol := ntc c\<rparr>);
             p = (case cfg ''fgcol'' of None \<Rightarrow> p | Some c \<Rightarrow> p\<lparr>fgcol := ntc c\<rparr>);
             p = (case cfg ''hicol'' of None \<Rightarrow> p | Some c \<Rightarrow> p\<lparr>hicol := ntc c\<rparr>);
             p = (case cfg ''hicol2'' of None \<Rightarrow> p | Some c \<Rightarrow> p\<lparr>hicol2 := ntc c\<rparr>);
             p = (case cfg ''hicol3'' of None \<Rightarrow> p | Some c \<Rightarrow> p\<lparr>hicol3 := ntc c\<rparr>);
             p = (case cfg ''errcol'' of None \<Rightarrow> p | Some c \<Rightarrow> p\<lparr>errcol := ntc c\<rparr>)
         in Inr p))"

subsection \<open>The text of the test\<close>

text \<open>
  Standard input: a terminal, a pipe with its bytes, or a pipe that fails to be read.
\<close>

datatype stdin = Terminal | Piped string | Unreadable

text \<open>The paragraphs \<open>main\<close> cuts piped text into, before they are wrapped.\<close>

definition paragraphs_of :: "string \<Rightarrow> string list" where
  "paragraphs_of b = Split (Trim (squeeze_breaks (Replace b [CR] [])) [NL]) [NL, NL]"

definition wrap_paragraph :: "'g extern \<Rightarrow> goint \<Rightarrow> string \<Rightarrow> string" where
  "wrap_paragraph ext wrapSz p = Replace (wordWrap ext (Trim p '' '') wrapSz) [NL] ('' '' @ [NL])"

text \<open>\<open>contentFn\<close> as \<open>main\<close> chooses it, or \<open>None\<close> when reading standard input fails.\<close>

definition read_content :: "'g extern \<Rightarrow> flags \<Rightarrow> stdin \<Rightarrow> content_fn option" where
  "read_content ext fl inp =
     (case inp of
        Terminal \<Rightarrow> Some (RandomText (flag_n fl) (flag_w fl))
      | Unreadable \<Rightarrow> None
      | Piped b \<Rightarrow>
          if flag_raw fl then Some (Fixed [b])
          else Some (Fixed (map (wrap_paragraph ext (flag_w fl)) (paragraphs_of b))))"

subsection \<open>The whole of \<open>main\<close>\<close>

text \<open>
  \<open>main\<close> after \<open>flag.Parse\<close>: \<open>-list themes\<close> prints the names and exits; piped text is
  read (a failure panics); the configuration file is read and the colours are chosen (an
  unknown \<open>-theme\<close> prints the error and exits with status 1); the screen is opened
  (\<open>scr_ok\<close> is false when \<open>tcell.NewScreen\<close> or \<open>scr.Init\<close> fails, which panics); then the
  tests run.
\<close>

definition main ::
  "'g extern \<Rightarrow> flags \<Rightarrow> stdin \<Rightarrow> string option \<Rightarrow> bool \<Rightarrow> nat \<Rightarrow> event list \<Rightarrow> 'g \<Rightarrow>
     status \<times> 'g dstate" where
  "main ext fl inp ttrc scr_ok fuel es g =
     (let s0 = \<lparr>results = [], trace = [], pending = es, rng = g\<rparr>
      in if flag_list fl = ''themes''
         then (Exited 0, s0\<lparr>trace := map (\<lambda>t. Stdout (t @ [NL])) (theme_order ext)\<rparr>)
         else (case read_content ext fl inp of
                 None \<Rightarrow> (Panicked, s0)
               | Some cf \<Rightarrow>
                   (case resolve_colors (themes ext) (newTcellColor ext) (flag_theme fl)
                           (readConfig ttrc) of
                      Inl msg \<Rightarrow> (Exited 1, s0\<lparr>trace := [Stderr msg]\<rparr>)
                    | Inr cols \<Rightarrow>
                        if scr_ok then run_tests ext fl cols cf fuel s0 else (Panicked, s0))))"

subsection \<open>Paragraphs and colours as the specification words them\<close>

text \<open>
  The lines of a text, and the maximal groups of consecutive lines that are not empty,
  each group joined again by line breaks.
\<close>

fun lines_from :: "string \<Rightarrow> string \<Rightarrow> string list" where
  "lines_from l [] = [l]"
| "lines_from l (c # cs) = (if c = NL then l # lines_from [] cs else lines_from (l @ [c]) cs)"

definition lines_of :: "string \<Rightarrow> string list" where
  "lines_of s = lines_from [] s"

fun join_lines :: "string list \<Rightarrow> string" where
  "join_lines [] = []"
| "join_lines [l] = l"
| "join_lines (l # ls) = l @ NL # join_lines ls"

fun groups_from :: "string list \<Rightarrow> string list \<Rightarrow> string list list" where
  "groups_from grp [] = (if grp = [] then [] else [grp])"
| "groups_from grp (l # ls) =
     (if l = [] then (if grp = [] then groups_from [] ls else grp # groups_from [] ls)
      else groups_from (grp @ [l]) ls)"

text \<open>
  The paragraphs of a text when the boundaries are the runs of blank lines, a blank line
  being one that shows nothing: it is empty or holds only spaces and tabs. Carriage
  returns do not count.
\<close>

definition is_blank :: "string \<Rightarrow> bool" where
  "is_blank l = list_all (\<lambda>c. c = CHR '' '' \<or> c = CHR 0x09) l"

definition paragraphs_by_blank_lines :: "string \<Rightarrow> string list" where
  "paragraphs_by_blank_lines b =
     map join_lines
       (groups_from [] (map (\<lambda>l. if is_blank l then [] else l)
                          (lines_of (filter (\<lambda>c. c \<noteq> CR) b))))"

text \<open>
  The paragraphs of a text when the boundaries are the runs of empty lines only: a line
  of spaces belongs to a paragraph like any other line. Carriage returns do not count.
\<close>

definition paragraphs_by_empty_lines :: "string \<Rightarrow> string list" where
  "paragraphs_by_empty_lines b =
     map join_lines (groups_from [] (lines_of (filter (\<lambda>c. c \<noteq> CR) b)))"

text \<open>A text in which no three line breaks follow one another.\<close>

fun no_triple_break :: "string \<Rightarrow> bool" where
  "no_triple_break (a # b # c # s) = ((a \<noteq> NL \<or> b \<noteq> NL \<or> c \<noteq> NL) \<and> no_triple_break (b # c # s))"
| "no_triple_break s = True"

text \<open>
  A piped text of three paragraphs, with a Windows line end and a closing line break,
  and a text whose middle line holds one space.
\<close>

definition sample_text :: string where
  "sample_text = ''ab'' @ [NL] @ ''cd'' @ [NL, NL, NL] @ '' e f'' @ [CR, NL, CR, NL] @ ''g'' @ [NL]"

definition spaced_text :: string where
  "spaced_text = ''ab'' @ [NL] @ '' '' @ [NL] @ ''cd''"




section \<open>The typing engine, modelled from the specification\<close>

text \<open>
  Modelled from the spec: the typing engine (\<open>typer.Start\<close> and the text it works on; the
  file \<open>typer.go\<close> is not among the sources). The definitions of this section follow
  sections 3 and 4 of the specification, not code. A character is one \<open>char\<close>.
\<close>

subsection \<open>Text session\<close>

text \<open>
  Modelled from the spec: a character cell is a target character with a verdict, and a
  session is the cells of one segment with a cursor.
\<close>

datatype verdict = Pending | Correct | Incorrect

record session =
  cells :: "(char \<times> verdict) list"
  cursor :: nat

text \<open>Modelled from the spec: a segment as it is loaded, every cell pending, cursor 0.\<close>

definition new_session :: "string \<Rightarrow> session" where
  "new_session txt = \<lparr>cells = map (\<lambda>c. (c, Pending)) txt, cursor = 0\<rparr>"

text \<open>Modelled from the spec: \<open>currentChar\<close>, with \<open>None\<close> for the end of the segment.\<close>

definition currentChar :: "session \<Rightarrow> char option" where
  "currentChar s =
     (if cursor s < length (cells s) then Some (fst (cells s ! cursor s)) else None)"

text \<open>Modelled from the spec: \<open>isComplete\<close>, the cursor has reached the end.\<close>

definition isComplete :: "session \<Rightarrow> bool" where
  "isComplete s = (length (cells s) \<le> cursor s)"

text \<open>
  Modelled from the spec: \<open>typeChar\<close>. A character equal to the target marks the cell
  correct and moves the cursor on; another one marks the cell incorrect and leaves the
  cursor. The specification does not say what happens at the end of the segment, where
  the engine never calls it: there it changes nothing.
\<close>

definition typeChar :: "char \<Rightarrow> session \<Rightarrow> verdict \<times> session" where
  "typeChar c s =
     (case currentChar s of
        None \<Rightarrow> (Incorrect, s)
      | Some x \<Rightarrow>
          if c = x
          then (Correct, s\<lparr>cells := (cells s)[cursor s := (x, Correct)], cursor := Suc (cursor s)\<rparr>)
          else (Incorrect, s\<lparr>cells := (cells s)[cursor s := (x, Incorrect)]\<rparr>))"

text \<open>Modelled from the spec: the cells from index \<open>i\<close>, \<open>n\<close> of them, get the verdict.\<close>

definition set_verdicts :: "verdict \<Rightarrow> nat \<Rightarrow> nat \<Rightarrow> (char \<times> verdict) list \<Rightarrow> (char \<times> verdict) list" where
  "set_verdicts v i n cs =
     take i cs @ map (\<lambda>(c, old). (c, v)) (take n (drop i cs)) @ drop (i + n) cs"

text \<open>Modelled from the spec: \<open>backspace\<close>.\<close>

definition backspace :: "session \<Rightarrow> bool \<times> session" where
  "backspace s =
     (if 0 < cursor s
      then (True, s\<lparr>cells := set_verdicts Pending (cursor s - 1) 1 (cells s), cursor := cursor s - 1\<rparr>)
      else (False, s))"

text \<open>
  Modelled from the spec: \<open>deletePreviousWord\<close>. The cursor goes back over the spaces
  before it and then over the characters of the word before them, which is the start of
  the current word, or of the previous word when the cursor stood at a word's start.
\<close>

definition deletePreviousWord :: "session \<Rightarrow> nat \<times> session" where
  "deletePreviousWord s =
     (let typed = rev (take (cursor s) (map fst (cells s)));
          n1 = length (takeWhile (\<lambda>c. c = CHR '' '') typed);
          n2 = length (takeWhile (\<lambda>c. c \<noteq> CHR '' '') (drop n1 typed));
          k = n1 + n2
      in (k, s\<lparr>cells := set_verdicts Pending (cursor s - k) k (cells s), cursor := cursor s - k\<rparr>))"

text \<open>
  Modelled from the spec: \<open>skipToNextWord\<close>. The rest of the word is marked incorrect and
  the cursor goes to the character after the next space; the space itself was typed and
  is marked correct.
\<close>

definition skipToNextWord :: "session \<Rightarrow> nat \<times> session" where
  "skipToNextWord s =
     (let ahead = drop (cursor s) (map fst (cells s));
          n = length (takeWhile (\<lambda>c. c \<noteq> CHR '' '') ahead);
          sp = (if n < length ahead then 1 else 0);
          cs = set_verdicts Correct (cursor s + n) sp (set_verdicts Incorrect (cursor s) n (cells s))
      in (n + sp, s\<lparr>cells := cs, cursor := cursor s + n + sp\<rparr>))"

subsection \<open>Engine\<close>

text \<open>
  Modelled from the spec: the abstract key events, and the reading of a terminal event
  as one of them. The specification leaves the reading to the input layer; the keys are
  those of the usage text of \<open>main\<close> (Escape restarts, Ctrl-C ends the program,
  Ctrl-Backspace deletes a word) with tcell's codes for Backspace and for a rune.
\<close>

datatype key_event = Char char | Backspace | DeleteWord | Restart | Quit

definition KeyBackspace :: key where
  "KeyBackspace = 8"

definition KeyBackspace2 :: key where
  "KeyBackspace2 = 127"

definition KeyRune :: key where
  "KeyRune = 256"

fun key_event_of :: "event \<Rightarrow> key_event option" where
  "key_event_of (EventKey d k r) =
     (if k = KeyEscape then Some Restart
      else if k = KeyCtrlC then Some Quit
      else if k = KeyBackspace2 then Some Backspace
      else if k = KeyBackspace then Some DeleteWord
      else if k = KeyRune then Some (Char r)
      else None)"
| "key_event_of (EventOther d) = None"

fun delay :: "event \<Rightarrow> duration" where
  "delay (EventKey d k r) = d"
| "delay (EventOther d) = d"

fun delayed :: "duration \<Rightarrow> event \<Rightarrow> event" where
  "delayed d (EventKey d0 k r) = EventKey d k r"
| "delayed d (EventOther d0) = EventOther d"

text \<open>
  Modelled from the spec: the state of a run. The active session, the segments still to
  come, the run totals and the time since the run started.
\<close>

record run =
  run_active :: session
  run_rest :: "string list"
  run_nerrs :: nat
  run_ncorrect :: nat
  run_elapsed :: duration

text \<open>Modelled from the spec: the outcomes of the state machine that reach the caller.\<close>

datatype reason = Natural | TimedOut | QuitKey

text \<open>
  Modelled from the spec: the next segment to type. An empty segment is complete at once
  and adds nothing, so it is passed over; \<open>None\<close> when no segment remains.
\<close>

fun enter :: "string list \<Rightarrow> (session \<times> string list) option" where
  "enter [] = None"
| "enter (txt # txts) = (if txt = [] then enter txts else Some (new_session txt, txts))"

definition start_run :: "session \<times> string list \<Rightarrow> run" where
  "start_run st =
     \<lparr>run_active = fst st, run_rest = snd st, run_nerrs = 0, run_ncorrect = 0, run_elapsed = 0\<rparr>"

text \<open>
  Modelled from the spec: a character, backspace or delete-word key on the running
  state. A character goes to \<open>typeChar\<close> and counts as correct or as an error; a space
  typed inside a word skips the word when \<open>SkipWord\<close> is on. Backspace and delete-word
  change no counter.
\<close>

definition apply_key :: "bool \<Rightarrow> key_event \<Rightarrow> run \<Rightarrow> run" where
  "apply_key skip ke r =
     (case ke of
        Char c \<Rightarrow>
          if skip \<and> c = CHR '' '' \<and> currentChar (run_active r) \<noteq> Some (CHR '' '')
          then r\<lparr>run_active := snd (skipToNextWord (run_active r))\<rparr>
          else (case typeChar c (run_active r) of
                  (Correct, s) \<Rightarrow> r\<lparr>run_active := s, run_ncorrect := Suc (run_ncorrect r)\<rparr>
                | (v, s) \<Rightarrow> r\<lparr>run_active := s, run_nerrs := Suc (run_nerrs r)\<rparr>)
      | Backspace \<Rightarrow> r\<lparr>run_active := snd (backspace (run_active r))\<rparr>
      | DeleteWord \<Rightarrow> r\<lparr>run_active := snd (deletePreviousWord (run_active r))\<rparr>
      | Restart \<Rightarrow> r
      | Quit \<Rightarrow> r)"

text \<open>
  Modelled from the spec: the event loop. The engine waits for the next key or for the
  timer, whichever comes first. The timer, when one is armed, ends the run at its
  deadline with the totals reached, and the key that would arrive later is not read.
  Restart puts the whole run back to its initial state; quit ends it. A key that
  completes the last segment ends the run naturally. With no event left the armed timer
  still fires; without a timer the engine waits for ever (\<open>None\<close>).
\<close>

definition fired :: "duration option \<Rightarrow> duration \<Rightarrow> duration option" where
  "fired timer now =
     (case timer of
        None \<Rightarrow> None
      | Some limit \<Rightarrow> if limit \<le>s now then Some limit else None)"

fun engine_loop ::
  "bool \<Rightarrow> duration option \<Rightarrow> session \<times> string list \<Rightarrow> run \<Rightarrow> event list \<Rightarrow>
     (reason \<times> run \<times> event list) option" where
  "engine_loop skip timer st0 r [] =
     (case timer of
        None \<Rightarrow> None
      | Some limit \<Rightarrow> Some (TimedOut, r\<lparr>run_elapsed := limit\<rparr>, []))"
| "engine_loop skip timer st0 r (e # es) =
     (let now = run_elapsed r + delay e
      in case fired timer now of
           Some limit \<Rightarrow>
             Some (TimedOut, r\<lparr>run_elapsed := limit\<rparr>, delayed (now - limit) e # es)
         | None \<Rightarrow>
             (case key_event_of e of
                None \<Rightarrow> engine_loop skip timer st0 (r\<lparr>run_elapsed := now\<rparr>) es
              | Some Quit \<Rightarrow> Some (QuitKey, r\<lparr>run_elapsed := now\<rparr>, es)
              | Some Restart \<Rightarrow> engine_loop skip timer st0 (start_run st0) es
              | Some ke \<Rightarrow>
                  (let r' = apply_key skip ke (r\<lparr>run_elapsed := now\<rparr>)
                   in if isComplete (run_active r')
                      then (case enter (run_rest r') of
                              None \<Rightarrow> Some (Natural, r', es)
                            | Some (s, txts) \<Rightarrow>
                                engine_loop skip timer st0
                                  (r'\<lparr>run_active := s, run_rest := txts\<rparr>) es)
                      else engine_loop skip timer st0 r' es)))"

text \<open>
  Modelled from the spec: the exit contract. The elapsed time of a finished run is never
  less than one tick; the exit key is \<open>0\<close> for a natural end or a timeout and Ctrl-C for
  quit.
\<close>

definition floor_tick :: "duration \<Rightarrow> duration" where
  "floor_tick d = (if d <s 1 then 1 else d)"

definition exit_key :: "reason \<Rightarrow> key" where
  "exit_key rs = (case rs of Natural \<Rightarrow> 0 | TimedOut \<Rightarrow> 0 | QuitKey \<Rightarrow> KeyCtrlC)"

definition finish :: "reason \<Rightarrow> run \<Rightarrow> outcome" where
  "finish rs r =
     (of_nat (run_nerrs r), of_nat (run_ncorrect r), floor_tick (run_elapsed r), exit_key rs)"

text \<open>
  Modelled from the spec: \<open>Start\<close>. The timeout \<open>-1\<close> that \<open>main\<close> passes for no limit
  arms no timer. A text with no segment to type ends naturally at once.
\<close>

definition Start_spec ::
  "typer \<Rightarrow> string list \<Rightarrow> duration \<Rightarrow> event list \<Rightarrow> (outcome \<times> event list) option" where
  "Start_spec ty segs limit es =
     (let timer = (if limit = - 1 then None else Some limit)
      in case enter segs of
           None \<Rightarrow>
             Some (finish Natural
                     \<lparr>run_active = new_session [], run_rest = [], run_nerrs = 0,
                      run_ncorrect = 0, run_elapsed = 0\<rparr>, es)
         | Some st0 \<Rightarrow>
             (case engine_loop (SkipWord ty) timer st0 (start_run st0) es of
                None \<Rightarrow> None
              | Some (rs, r, es') \<Rightarrow> Some (finish rs r, es')))"

text \<open>The collaborators with the engine of the specification in the place of \<open>Start\<close>.\<close>

definition spec_extern :: "unit extern" where
  "spec_extern = (const_extern (0, 0, 0, 0))\<lparr>Start := Start_spec\<rparr>"

section \<open>Properties of the number model\<close>

subsection \<open>Rounding keeps the sign and never produces a zero from a non-zero value\<close>

lemma bitlen_ge_1: "0 < x \<Longrightarrow> 1 \<le> bitlen x"
  by (simp add: bitlen_alt_def)

lemma ilog2_le:
  assumes "0 < a"
  shows "2 powi (ilog2 a) \<le> a"
proof -
  obtain p q where pq: "quotient_of a = (p, q)"
    by (cases "quotient_of a")
  have q: "0 < q"
    by (rule quotient_of_denom_pos [OF pq])
  have a: "a = of_int p / of_int q"
    by (rule quotient_of_div [OF pq])
  have p: "0 < p"
    using assms a q by (simp add: zero_less_divide_iff)
  let ?d = "bitlen p - bitlen q"
  show ?thesis
  proof (cases "2 powi ?d \<le> a")
    case True
    then show ?thesis
      by (simp add: ilog2_def pq)
  next
    case False
    have "(2::rat) powi (bitlen p - 1) = of_int (2 ^ nat (bitlen p - 1))"
      using bitlen_ge_1 [OF p] by (simp add: power_int_nonneg_exp)
    also have "\<dots> \<le> of_int p"
      using bitlen_bounds [OF p] by (simp only: of_int_le_iff)
    finally have lo: "(2::rat) powi (bitlen p - 1) \<le> of_int p" .
    have "(of_int q :: rat) \<le> of_int (2 ^ nat (bitlen q))"
      using bitlen_bounds [OF q] by (simp only: of_int_le_iff) simp
    also have "\<dots> = 2 powi (bitlen q)"
      using bitlen_ge_1 [OF q] by (simp add: power_int_nonneg_exp)
    finally have hi: "(of_int q :: rat) \<le> 2 powi (bitlen q)" .
    have "(2::rat) powi (?d - 1) = 2 powi (bitlen p - 1) / 2 powi (bitlen q)"
      using power_int_diff [of "2::rat" "bitlen p - 1" "bitlen q"] by (simp add: algebra_simps)
    also have "\<dots> \<le> of_int p / of_int q"
      using lo hi q p by (intro frac_le) simp_all
    finally have "(2::rat) powi (?d - 1) \<le> a"
      by (simp only: a [symmetric])
    moreover have "ilog2 a = ?d - 1"
      using False by (simp add: ilog2_def pq)
    ultimately show ?thesis
      by simp
  qed
qed

lemma round_even_ge_floor: "\<lfloor>x\<rfloor> \<le> round_even x"
  by (simp add: round_even_def Let_def)

lemma round_f64_pos:
  assumes "0 < a"
  shows "0 < round_f64 a"
proof -
  let ?u = "(2::rat) powi (ilog2 a - 52)"
  have u: "0 < ?u"
    by simp
  have "?u \<le> 2 powi (ilog2 a)"
    by (rule power_int_increasing) simp_all
  also have "\<dots> \<le> a"
    by (rule ilog2_le [OF assms])
  finally have "1 \<le> a / ?u"
    using u by (simp add: le_divide_eq)
  then have "1 \<le> \<lfloor>a / ?u\<rfloor>"
    by (simp add: le_floor_iff)
  then have "1 \<le> round_even (a / ?u)"
    using round_even_ge_floor [of "a / ?u"] by linarith
  then have "0 < (of_int (round_even (a / ?u)) :: rat) * ?u"
    using u by (intro mult_pos_pos) simp_all
  then show ?thesis
    using assms by (simp add: round_f64_def Let_def)
qed

lemma round_f64_nonneg: "0 \<le> round_f64 a"
  using round_f64_pos [of a] by (cases "0 < a") (simp_all add: round_f64_def)

lemma round_f64_eq_0_iff: "round_f64 a = 0 \<longleftrightarrow> a \<le> 0"
  using round_f64_pos [of a] by (cases "0 < a") (simp_all add: round_f64_def)

lemma f64_of_int_Finite:
  "\<exists>m. f64_of_int i = Finite (sint i < 0) m \<and> 0 \<le> m \<and> (m = 0 \<longleftrightarrow> i = 0)"
proof -
  have "round_f64 (of_int \<bar>sint i\<bar>) = 0 \<longleftrightarrow> i = 0"
    by (simp add: round_f64_eq_0_iff signed_eq_0_iff)
  then show ?thesis
    by (simp add: f64_of_int_def round_f64_nonneg)
qed

lemma spec_accuracy_Finite:
  assumes "nerrs + ncorrect \<noteq> 0"
  shows "\<exists>s m. spec_accuracy nerrs ncorrect = Finite s m \<and> 0 \<le> m"
proof -
  obtain a where a: "f64_of_int ncorrect = Finite (sint ncorrect < 0) a"
    using f64_of_int_Finite [of ncorrect] by blast
  obtain b where b: "f64_of_int (nerrs + ncorrect) = Finite (sint (nerrs + ncorrect) < 0) b"
    and b0: "b \<noteq> 0"
    using f64_of_int_Finite [of "nerrs + ncorrect"] assms by blast
  show ?thesis
    by (simp add: spec_accuracy_def a b b0 f64_100_def round_f64_nonneg)
qed

subsection \<open>The shape of printed numbers\<close>

lemma is_digit_digit: "0 \<le> d \<Longrightarrow> d < 10 \<Longrightarrow> is_digit (digit d)"
  by (simp add: is_digit_def digit_def)

lemma digits_ok: "0 \<le> k \<Longrightarrow> digits k \<noteq> [] \<and> list_all is_digit (digits k)"
proof (induction k rule: digits.induct)
  case (1 k)
  show ?case
  proof (cases "k < 10")
    case True
    with 1(2) show ?thesis
      by (simp add: digits.simps [of k] is_digit_digit)
  next
    case False
    then have "0 \<le> k div 10"
      by simp
    with 1(1) False have "list_all is_digit (digits (k div 10))"
      by simp
    with False show ?thesis
      by (simp add: digits.simps [of k] is_digit_digit)
  qed
qed

lemma is_number_digits: "0 \<le> k \<Longrightarrow> is_number (digits k)"
  using digits_ok [of k]
  by (cases "digits k") (auto simp: is_number_def is_digit_def)

lemma is_number_minus_digits: "0 \<le> k \<Longrightarrow> is_number (CHR ''-'' # digits k)"
  using digits_ok [of k] by (simp add: is_number_def)

lemma is_number_fmt_d: "is_number (fmt_d i)"
  by (simp add: fmt_d_def is_number_digits is_number_minus_digits)

lemma round_even_nonneg: "0 \<le> x \<Longrightarrow> 0 \<le> round_even x"
  using round_even_ge_floor [of x] by (simp add: order_trans [of 0 "\<lfloor>x\<rfloor>"])

lemma two_decimals_fmt_f2:
  assumes "0 \<le> a"
  shows "two_decimals (fmt_f2 (Finite s a))"
proof -
  let ?k = "round_even (a * 100)"
  have k: "0 \<le> ?k"
    using assms by (intro round_even_nonneg) simp
  then have ip: "is_number ((if s then ''-'' else []) @ digits (?k div 100))"
    by (simp add: is_number_digits is_number_minus_digits pos_imp_zdiv_nonneg_iff)
  have d1: "is_digit (digit (?k mod 100 div 10))"
    by (intro is_digit_digit) (simp_all add: pos_imp_zdiv_nonneg_iff)
  have d2: "is_digit (digit (?k mod 10))"
    by (intro is_digit_digit) simp_all
  show ?thesis
    using ip d1 d2 by (simp add: two_decimals_def fmt_f2_def Let_def)
qed

section \<open>Properties of the driver\<close>

subsection \<open>What \<open>exit\<close>, \<open>showReport\<close> and one turn of the loop leave behind\<close>

lemma exit_results: "results (snd (exit c s)) = results s"
  by (simp add: exit_def)

lemma exit_status: "fst (exit c s) = Exited 0"
  by (simp add: exit_def)

lemma exit_trace:
  "trace (snd (exit c s)) =
     trace s @ Fini # (if c then map (\<lambda>r. Stdout (csv_line r)) (results s) else [])"
  by (simp add: exit_def)

lemma draws_of_append: "draws_of (xs @ ys) = draws_of xs @ draws_of ys"
  by (induction xs rule: draws_of.induct) simp_all

lemma stdout_of_append: "stdout_of (xs @ ys) = stdout_of xs @ stdout_of ys"
  by (induction xs rule: stdout_of.induct) simp_all

lemma starts_of_append: "starts_of (xs @ ys) = starts_of xs @ starts_of ys"
  by (induction xs rule: starts_of.induct) simp_all

lemma draws_of_Stdout: "draws_of (map (\<lambda>r. Stdout (f r)) rs) = []"
  by (induction rs) simp_all

lemma starts_of_Stdout: "starts_of (map (\<lambda>r. Stdout (f r)) rs) = []"
  by (induction rs) simp_all

lemma stdout_of_Stdout: "stdout_of (map (\<lambda>r. Stdout (f r)) rs) = map f rs"
  by (induction rs) simp_all

lemma exit_draws: "draws_of (trace (snd (exit c s))) = draws_of (trace s)"
  by (simp add: exit_trace draws_of_append draws_of_Stdout)

lemma exit_starts: "starts_of (trace (snd (exit c s))) = starts_of (trace s)"
  by (simp add: exit_trace starts_of_append starts_of_Stdout)

lemma showReport_poll_results: "results (snd (showReport_poll c s es)) = results s"
  by (induction c s es rule: showReport_poll.induct) (simp_all add: exit_results)

lemma showReport_poll_draws: "draws_of (trace (snd (showReport_poll c s es))) = draws_of (trace s)"
  by (induction c s es rule: showReport_poll.induct) (simp_all add: exit_draws)

lemma showReport_poll_starts: "starts_of (trace (snd (showReport_poll c s es))) = starts_of (trace s)"
  by (induction c s es rule: showReport_poll.induct) (simp_all add: exit_starts)

lemma showReport_poll_status:
  "fst (showReport_poll c s es) =
     (case report_key es of
        None \<Rightarrow> Blocked
      | Some k \<Rightarrow> if k = KeyEscape then Continue else Exited 0)"
  by (induction c s es rule: showReport_poll.induct) (simp_all add: exit_status)

lemma showReport_results: "results (snd (showReport csv c w a s)) = results s"
  by (simp add: showReport_def showReport_poll_results)

lemma showReport_draws:
  "draws_of (trace (snd (showReport csv c w a s))) = draws_of (trace s) @ [report_text c w a]"
  by (simp add: showReport_def showReport_poll_draws draws_of_append)

lemma showReport_starts:
  "starts_of (trace (snd (showReport csv c w a s))) = starts_of (trace s)"
  by (simp add: showReport_def showReport_poll_starts starts_of_append)

lemma showReport_status:
  "fst (showReport csv c w a s) =
     (case report_key (pending s) of
        None \<Rightarrow> Blocked
      | Some k \<Rightarrow> if k = KeyEscape then Continue else Exited 0)"
  by (simp add: showReport_def showReport_poll_status)


lemma main_iter_natural:
  assumes "contentFn ext cf (rng s) = (content, g')"
    and "Start ext ty content timeout (pending s) = Some ((nerrs, ncorrect, t, 0), es)"
  shows "main_iter ext fl ty cf timeout s =
           (let r = spec_result (indefinite ext) nerrs ncorrect t;
                s3 = s\<lparr>rng := g', trace := trace s @ [CallStart ty content timeout], pending := es,
                       results := results s @ [r]\<rparr>
            in if flag_o fl then exit (flag_csv fl) s3
               else showReport (flag_csv fl) (cpm r) (wpm r) (accuracy r) s3)"
  using assms
  by (simp add: main_iter_def Let_def spec_result_def spec_cpm_def spec_wpm_def spec_accuracy_def)

lemma main_iter_quit:
  assumes "contentFn ext cf (rng s) = (content, g')"
    and "Start ext ty content timeout (pending s) = Some ((nerrs, ncorrect, t, KeyCtrlC), es)"
  shows "main_iter ext fl ty cf timeout s =
           exit (flag_csv fl)
             (s\<lparr>rng := g', trace := trace s @ [CallStart ty content timeout], pending := es\<rparr>)"
  using assms by (simp add: main_iter_def Let_def KeyCtrlC_def)

lemma main_iter_other:
  assumes "contentFn ext cf (rng s) = (content, g')"
    and "Start ext ty content timeout (pending s) = Some ((nerrs, ncorrect, t, k), es)"
    and "k \<noteq> 0" and "k \<noteq> KeyCtrlC"
  shows "main_iter ext fl ty cf timeout s =
           (Continue, s\<lparr>rng := g', trace := trace s @ [CallStart ty content timeout], pending := es\<rparr>)"
  using assms by (simp add: main_iter_def Let_def)

lemma main_iter_blocked:
  assumes "contentFn ext cf (rng s) = (content, g')"
    and "Start ext ty content timeout (pending s) = None"
  shows "main_iter ext fl ty cf timeout s =
           (Blocked, s\<lparr>rng := g', trace := trace s @ [CallStart ty content timeout]\<rparr>)"
  using assms by (simp add: main_iter_def Let_def)

lemma main_iter_starts:
  "starts_of (trace (snd (main_iter ext fl ty cf timeout s))) =
     starts_of (trace s) @ [(ty, fst (contentFn ext cf (rng s)), timeout)]"
proof -
  obtain content g' where c: "contentFn ext cf (rng s) = (content, g')"
    by (cases "contentFn ext cf (rng s)")
  show ?thesis
  proof (cases "Start ext ty content timeout (pending s)")
    case None
    then show ?thesis
      by (simp add: main_iter_blocked [OF c] c starts_of_append)
  next
    case (Some res)
    obtain nerrs ncorrect t k es where r: "res = ((nerrs, ncorrect, t, k), es)"
      by (cases res) auto
    consider "k = 0" | "k = KeyCtrlC" | "k \<noteq> 0" "k \<noteq> KeyCtrlC"
      by blast
    then show ?thesis
    proof cases
      case 1
      with Some r have st: "Start ext ty content timeout (pending s) = Some ((nerrs, ncorrect, t, 0), es)"
        by simp
      show ?thesis
        by (simp add: main_iter_natural [OF c st] Let_def c exit_starts showReport_starts
            starts_of_append)
    next
      case 2
      with Some r have st: "Start ext ty content timeout (pending s) = Some ((nerrs, ncorrect, t, KeyCtrlC), es)"
        by simp
      show ?thesis
        by (simp add: main_iter_quit [OF c st] c exit_starts starts_of_append)
    next
      case 3
      with Some r have st: "Start ext ty content timeout (pending s) = Some ((nerrs, ncorrect, t, k), es)"
        by simp
      show ?thesis
        by (simp add: main_iter_other [OF c st 3] c starts_of_append)
    qed
  qed
qed


lemma main_iter_results:
  "results (snd (main_iter ext fl ty cf timeout s)) =
     (case Start ext ty (fst (contentFn ext cf (rng s))) timeout (pending s) of
        None \<Rightarrow> results s
      | Some ((nerrs, ncorrect, t, k), es) \<Rightarrow>
          if k = 0 then results s @ [spec_result (indefinite ext) nerrs ncorrect t]
          else results s)"
proof -
  obtain content g' where c: "contentFn ext cf (rng s) = (content, g')"
    by (cases "contentFn ext cf (rng s)")
  show ?thesis
  proof (cases "Start ext ty content timeout (pending s)")
    case None
    then show ?thesis
      by (simp add: main_iter_blocked [OF c] c)
  next
    case (Some res)
    obtain nerrs ncorrect t k es where r: "res = ((nerrs, ncorrect, t, k), es)"
      by (cases res) auto
    consider "k = 0" | "k = KeyCtrlC" | "k \<noteq> 0" "k \<noteq> KeyCtrlC"
      by blast
    then show ?thesis
    proof cases
      case 1
      with Some r have st: "Start ext ty content timeout (pending s) = Some ((nerrs, ncorrect, t, 0), es)"
        by simp
      show ?thesis
        by (simp add: main_iter_natural [OF c st] Let_def c st exit_results showReport_results)
    next
      case 2
      with Some r have st: "Start ext ty content timeout (pending s) = Some ((nerrs, ncorrect, t, KeyCtrlC), es)"
        by simp
      show ?thesis
        by (simp add: main_iter_quit [OF c st] c st exit_results KeyCtrlC_def)
    next
      case 3
      with Some r have st: "Start ext ty content timeout (pending s) = Some ((nerrs, ncorrect, t, k), es)"
        by simp
      show ?thesis
        by (simp add: main_iter_other [OF c st 3] c st 3)
    qed
  qed
qed

lemma exit_stdout:
  "stdout_of (trace (snd (exit csv s))) =
     stdout_of (trace s) @ (if csv then map csv_line (results s) else [])"
  by (simp add: exit_trace stdout_of_append stdout_of_Stdout)

lemma main_loop_starts:
  "\<exists>cs. starts_of (trace (snd (main_loop ext fl ty cf timeout fuel s))) =
          starts_of (trace s) @ map (\<lambda>c. (ty, c, timeout)) cs"
proof (induction fuel arbitrary: s)
  case 0
  show ?case
    by (rule exI [of _ "[]"]) simp
next
  case (Suc fuel)
  obtain st s' where it: "main_iter ext fl ty cf timeout s = (st, s')"
    by (cases "main_iter ext fl ty cf timeout s")
  have one: "starts_of (trace s') = starts_of (trace s) @ [(ty, fst (contentFn ext cf (rng s)), timeout)]"
    using main_iter_starts [of ext fl ty cf timeout s] it by simp
  show ?case
  proof (cases st)
    case Continue
    obtain cs where "starts_of (trace (snd (main_loop ext fl ty cf timeout fuel s'))) =
        starts_of (trace s') @ map (\<lambda>c. (ty, c, timeout)) cs"
      using Suc.IH [of s'] by blast
    with it Continue one show ?thesis
      by (intro exI [of _ "fst (contentFn ext cf (rng s)) # cs"]) simp
  next
    case (Exited c)
    with it one show ?thesis
      by (intro exI [of _ "[fst (contentFn ext cf (rng s))]"]) simp
  next
    case Panicked
    with it one show ?thesis
      by (intro exI [of _ "[fst (contentFn ext cf (rng s))]"]) simp
  next
    case Blocked
    with it one show ?thesis
      by (intro exI [of _ "[fst (contentFn ext cf (rng s))]"]) simp
  qed
qed

lemma run_tests_starts:
  "\<exists>cs. starts_of (trace (snd (run_tests ext fl cols cf fuel (init_state es g)))) =
          map (\<lambda>c. (if flag_noskip fl then (NewTyper cols)\<lparr>SkipWord := False\<rparr> else NewTyper cols, c,
                     if flag_t fl \<noteq> - 1 then flag_t fl * 1000000000 else flag_t fl)) cs"
  using main_loop_starts [of ext fl _ cf _ fuel "init_state es g"]
  by (simp add: run_tests_def Let_def init_state_def)

lemma sint_seconds:
  assumes "0 < sint (d :: goint)" and "sint d \<le> 9223372036"
  shows "sint (d * 1000000000) = sint d * 1000000000"
proof -
  have "sint (d * 1000000000) = signed_take_bit 63 (sint d * 1000000000)"
    by (simp add: sint_word_ariths)
  also have "\<dots> = sint d * 1000000000"
    using assms by (intro signed_take_bit_int_eq_self) simp_all
  finally show ?thesis .
qed

subsection \<open>Statistics of a finished run\<close>



text \<open>
  Claim C2, evaluated on the code. A run that ends by itself with no keystroke counted
  (\<open>nerrs = 0\<close>, \<open>ncorrect = 0\<close>) gets the accuracy \<open>0.0 / 0.0 * 100\<close>, which is NaN: the
  division by zero is performed, and the report shows \<open>Accuracy: NaN%\<close>, not \<open>0\<close>.
  First one turn of the loop on such a tuple; then the whole program with the engine of
  the specification, on the piped text \<open>ab\<close> under \<open>-t 1\<close> with no key pressed: the timer
  ends the run after one second with both counters at zero.
\<close>

theorem accuracy_without_keystrokes:
  "main_iter (const_extern (0, 0, 60000000000, 0)) default_flags (NewTyper black)
      (Fixed [''ab'']) (- 1) (init_state [EventKey 0 KeyEscape (CHR ''a'')] ()) =
     (Continue,
      \<lparr>results = [\<lparr>wpm = 0, cpm = 0, accuracy = NaN\<rparr>],
       trace = [CallStart (NewTyper black) [''ab''] (- 1),
                Draw (''WPM: 0'' @ [NL] @ ''CPM: 0'' @ [NL] @ ''Accuracy: NaN%'')],
       pending = [], rng = ()\<rparr>) \<and>
   main spec_extern (default_flags\<lparr>flag_t := 1\<rparr>) (Piped ''ab'') None True 1 [] () =
     (Blocked,
      \<lparr>results = [\<lparr>wpm = 0, cpm = 0, accuracy = NaN\<rparr>],
       trace = [CallStart
                  (NewTyper \<lparr>bgcol = 2, fgcol = 3, hicol = 4, hicol2 = 5, hicol3 = 6, errcol = 7\<rparr>)
                  [''ab''] 1000000000,
                Draw (''WPM: 0'' @ [NL] @ ''CPM: 0'' @ [NL] @ ''Accuracy: NaN%'')],
       pending = [], rng = ()\<rparr>)"
  by code_simp

subsection \<open>Dispatch on the exit key\<close>

text \<open>
  Claim C3 as stated fails in one-shot mode: a run that ends by itself (exit key \<open>0\<close>)
  under \<open>-o\<close> is recorded, and the process exits at once. No report is drawn.
\<close>

theorem one_shot_run_shows_no_report:
  "fst (main_iter (const_extern (5, 45, 60000000000, 0)) (default_flags\<lparr>flag_o := True\<rparr>)
          (NewTyper black) (Fixed [''ab'']) (- 1) (init_state [EventKey 0 KeyEscape (CHR ''a'')] ())) =
     Exited 0 \<and>
   trace (snd (main_iter (const_extern (5, 45, 60000000000, 0)) (default_flags\<lparr>flag_o := True\<rparr>)
          (NewTyper black) (Fixed [''ab'']) (- 1) (init_state [EventKey 0 KeyEscape (CHR ''a'')] ()))) =
     [CallStart (NewTyper black) [''ab''] (- 1), Fini]"
  by code_simp

text \<open>
  Claim C3, amended. For every tuple \<open>Start\<close> returns the driver dispatches on the exit
  key. On \<open>0\<close> it computes the statistics and records them; without \<open>-o\<close> it then draws
  the report, and the loop goes on when the report is left with Escape, the process exits
  on Ctrl-C, and it waits when neither key comes; with \<open>-o\<close> the process exits with
  status 0 and no report is drawn. On Ctrl-C the process exits with status 0, and nothing
  is recorded or drawn.
\<close>

theorem exit_reason_dispatch:
  assumes "contentFn ext cf (rng s) = (content, g')"
    and "Start ext ty content timeout (pending s) = Some ((nerrs, ncorrect, t, k), es)"
  shows "(k = 0 \<and> \<not> flag_o fl \<longrightarrow>
            results (snd (main_iter ext fl ty cf timeout s)) =
              results s @ [spec_result (indefinite ext) nerrs ncorrect t] \<and>
            draws_of (trace (snd (main_iter ext fl ty cf timeout s))) =
              draws_of (trace s) @
                [report_text (cpm (spec_result (indefinite ext) nerrs ncorrect t))
                   (wpm (spec_result (indefinite ext) nerrs ncorrect t))
                   (accuracy (spec_result (indefinite ext) nerrs ncorrect t))] \<and>
            fst (main_iter ext fl ty cf timeout s) =
              (case report_key es of
                 None \<Rightarrow> Blocked
               | Some k' \<Rightarrow> if k' = KeyEscape then Continue else Exited 0)) \<and>
         (k = 0 \<and> flag_o fl \<longrightarrow>
            results (snd (main_iter ext fl ty cf timeout s)) =
              results s @ [spec_result (indefinite ext) nerrs ncorrect t] \<and>
            draws_of (trace (snd (main_iter ext fl ty cf timeout s))) = draws_of (trace s) \<and>
            fst (main_iter ext fl ty cf timeout s) = Exited 0) \<and>
         (k = KeyCtrlC \<longrightarrow>
            results (snd (main_iter ext fl ty cf timeout s)) = results s \<and>
            draws_of (trace (snd (main_iter ext fl ty cf timeout s))) = draws_of (trace s) \<and>
            fst (main_iter ext fl ty cf timeout s) = Exited 0)"
proof (intro conjI impI)
  assume "k = 0 \<and> \<not> flag_o fl"
  then have st: "Start ext ty content timeout (pending s) = Some ((nerrs, ncorrect, t, 0), es)"
    and o: "\<not> flag_o fl"
    using assms(2) by simp_all
  note it = main_iter_natural [OF assms(1) st, of fl]
  show "results (snd (main_iter ext fl ty cf timeout s)) =
          results s @ [spec_result (indefinite ext) nerrs ncorrect t]"
    by (simp add: it Let_def o showReport_results)
  show "draws_of (trace (snd (main_iter ext fl ty cf timeout s))) =
          draws_of (trace s) @
            [report_text (cpm (spec_result (indefinite ext) nerrs ncorrect t))
               (wpm (spec_result (indefinite ext) nerrs ncorrect t))
               (accuracy (spec_result (indefinite ext) nerrs ncorrect t))]"
    by (simp add: it Let_def o showReport_draws draws_of_append)
  show "fst (main_iter ext fl ty cf timeout s) =
          (case report_key es of
             None \<Rightarrow> Blocked
           | Some k' \<Rightarrow> if k' = KeyEscape then Continue else Exited 0)"
    by (simp add: it Let_def o showReport_status)
next
  assume "k = 0 \<and> flag_o fl"
  then have st: "Start ext ty content timeout (pending s) = Some ((nerrs, ncorrect, t, 0), es)"
    and o: "flag_o fl"
    using assms(2) by simp_all
  note it = main_iter_natural [OF assms(1) st, of fl]
  show "results (snd (main_iter ext fl ty cf timeout s)) =
          results s @ [spec_result (indefinite ext) nerrs ncorrect t]"
    by (simp add: it Let_def o exit_results)
  show "draws_of (trace (snd (main_iter ext fl ty cf timeout s))) = draws_of (trace s)"
    by (simp add: it Let_def o exit_draws draws_of_append)
  show "fst (main_iter ext fl ty cf timeout s) = Exited 0"
    by (simp add: it Let_def o exit_status)
next
  assume "k = KeyCtrlC"
  then have st: "Start ext ty content timeout (pending s) = Some ((nerrs, ncorrect, t, KeyCtrlC), es)"
    using assms(2) by simp
  note it = main_iter_quit [OF assms(1) st, of fl]
  show "results (snd (main_iter ext fl ty cf timeout s)) = results s"
    by (simp add: it exit_results)
  show "draws_of (trace (snd (main_iter ext fl ty cf timeout s))) = draws_of (trace s)"
    by (simp add: it exit_draws draws_of_append)
  show "fst (main_iter ext fl ty cf timeout s) = Exited 0"
    by (simp add: it exit_status)
qed

text \<open>The three branches on concrete runs: a report left with Escape, \<open>-o\<close>, and Ctrl-C.\<close>

theorem exit_reason_dispatch_witness:
  "fst (main_iter (const_extern (5, 45, 60000000000, 0)) default_flags (NewTyper black)
          (Fixed [''ab'']) (- 1) (init_state [EventKey 0 KeyEscape (CHR ''a'')] ())) = Continue \<and>
   fst (main_iter (const_extern (5, 45, 60000000000, 0)) (default_flags\<lparr>flag_o := True\<rparr>)
          (NewTyper black) (Fixed [''ab'']) (- 1) (init_state [EventKey 0 KeyEscape (CHR ''a'')] ())) =
     Exited 0 \<and>
   fst (main_iter (const_extern (5, 45, 60000000000, KeyCtrlC)) default_flags (NewTyper black)
          (Fixed [''ab'']) (- 1) (init_state [EventKey 0 KeyEscape (CHR ''a'')] ())) = Exited 0"
proof -
  let ?s = "init_state [EventKey 0 KeyEscape (CHR ''a'')] ()"
  have c: "contentFn (const_extern r) (Fixed [''ab'']) (rng ?s) = ([''ab''], ())" for r
    by (simp add: contentFn_def init_state_def)
  have st: "Start (const_extern r) (NewTyper black) [''ab''] (- 1) (pending ?s) =
              Some (r, [EventKey 0 KeyEscape (CHR ''a'')])" for r
    by (simp add: const_extern_def const_Start_def init_state_def)
  have o: "\<not> flag_o default_flags" "flag_o (default_flags\<lparr>flag_o := True\<rparr>)"
    by (simp_all add: default_flags_def)
  show ?thesis
    using exit_reason_dispatch [where fl = default_flags,
          OF c [of "(5, 45, 60000000000, 0)"] st [of "(5, 45, 60000000000, 0)"]]
      exit_reason_dispatch [where fl = "default_flags\<lparr>flag_o := True\<rparr>",
          OF c [of "(5, 45, 60000000000, 0)"] st [of "(5, 45, 60000000000, 0)"]]
      exit_reason_dispatch [where fl = default_flags,
          OF c [of "(5, 45, 60000000000, KeyCtrlC)"] st [of "(5, 45, 60000000000, KeyCtrlC)"]]
    by (simp add: o KeyEscape_def)
qed

text \<open>
  Claim C8. When \<open>Start\<close> returns an exit key that is neither \<open>0\<close> nor Ctrl-C, the turn
  of the loop records no result and draws no report: the state changes only by the call
  itself. The loop goes straight to its next turn, which calls \<open>Start\<close> with content
  obtained anew from \<open>contentFn\<close>, the same typer and the same timeout. The results log
  grows in a turn only if \<open>Start\<close> returned the exit key \<open>0\<close>.
\<close>

theorem other_exit_key_restarts:
  assumes "contentFn ext cf (rng s) = (content, g')"
    and "Start ext ty content timeout (pending s) = Some ((nerrs, ncorrect, t, k), es)"
    and "k \<noteq> 0" and "k \<noteq> KeyCtrlC"
    and "contentFn ext cf g' = (content', g'')"
  shows "main_iter ext fl ty cf timeout s =
           (Continue, s\<lparr>rng := g', trace := trace s @ [CallStart ty content timeout], pending := es\<rparr>) \<and>
         main_loop ext fl ty cf timeout (Suc n) s =
           main_loop ext fl ty cf timeout n
             (s\<lparr>rng := g', trace := trace s @ [CallStart ty content timeout], pending := es\<rparr>) \<and>
         starts_of (trace (snd (main_iter ext fl ty cf timeout
             (s\<lparr>rng := g', trace := trace s @ [CallStart ty content timeout], pending := es\<rparr>)))) =
           starts_of (trace s) @ [(ty, content, timeout), (ty, content', timeout)] \<and>
         (results (snd (main_iter ext fl ty cf timeout s0)) \<noteq> results s0 \<longrightarrow>
            (\<exists>ne nc d es0. Start ext ty (fst (contentFn ext cf (rng s0))) timeout (pending s0) =
               Some ((ne, nc, d, 0), es0)))"
proof (intro conjI impI)
  note it = main_iter_other [OF assms(1-4), of fl]
  show "main_iter ext fl ty cf timeout s =
          (Continue, s\<lparr>rng := g', trace := trace s @ [CallStart ty content timeout], pending := es\<rparr>)"
    by (rule it)
  show "main_loop ext fl ty cf timeout (Suc n) s =
          main_loop ext fl ty cf timeout n
            (s\<lparr>rng := g', trace := trace s @ [CallStart ty content timeout], pending := es\<rparr>)"
    by (simp add: it)
  show "starts_of (trace (snd (main_iter ext fl ty cf timeout
            (s\<lparr>rng := g', trace := trace s @ [CallStart ty content timeout], pending := es\<rparr>)))) =
          starts_of (trace s) @ [(ty, content, timeout), (ty, content', timeout)]"
    by (simp add: main_iter_starts starts_of_append assms(5))
next
  assume grow: "results (snd (main_iter ext fl ty cf timeout s0)) \<noteq> results s0"
  show "\<exists>ne nc d es0. Start ext ty (fst (contentFn ext cf (rng s0))) timeout (pending s0) =
          Some ((ne, nc, d, 0), es0)"
  proof (cases "Start ext ty (fst (contentFn ext cf (rng s0))) timeout (pending s0)")
    case None
    with grow show ?thesis
      by (simp add: main_iter_results)
  next
    case (Some res)
    obtain ne nc d k' es0 where r: "res = ((ne, nc, d, k'), es0)"
      by (cases res) auto
    with grow Some have "k' = 0"
      by (simp add: main_iter_results split: if_splits)
    with Some r show ?thesis
      by simp
  qed
qed

text \<open>A run left with Escape: the turn ends with nothing recorded and the loop continues.\<close>

theorem other_exit_key_restarts_witness:
  "main_iter (const_extern (5, 45, 60000000000, KeyEscape)) default_flags (NewTyper black)
      (Fixed [''ab'']) (- 1) (init_state [] ()) =
     (Continue,
      \<lparr>results = [], trace = [CallStart (NewTyper black) [''ab''] (- 1)], pending = [], rng = ()\<rparr>)"
proof -
  let ?r = "(5, 45, 60000000000, KeyEscape) :: outcome"
  have c: "contentFn (const_extern ?r) (Fixed [''ab'']) (rng (init_state [] ())) = ([''ab''], ())"
    by (simp add: contentFn_def init_state_def)
  have st: "Start (const_extern ?r) (NewTyper black) [''ab''] (- 1) (pending (init_state [] ())) =
              Some (?r, [])"
    by (simp add: const_extern_def const_Start_def init_state_def)
  have k: "KeyEscape \<noteq> 0" "KeyEscape \<noteq> KeyCtrlC"
    by (simp_all add: KeyEscape_def KeyCtrlC_def)
  have c': "contentFn (const_extern ?r) (Fixed [''ab'']) () = ([''ab''], ())"
    by (simp add: contentFn_def)
  show ?thesis
    using other_exit_key_restarts [where fl = default_flags, OF c st k c']
    by (simp add: init_state_def)
qed

subsection \<open>The CSV lines printed on exit\<close>

text \<open>
  What \<open>exit\<close> prints. It ends the process with status 0. In CSV mode it prints one
  line for each recorded run, in the order of the results log, and nothing otherwise.
  A line is the integer wpm, a comma, the integer cpm, a comma, the accuracy and a line
  break; the accuracy has exactly two decimals for every run that counted at least one
  keystroke (\<open>nerrs + ncorrect \<noteq> 0\<close>). Under \<open>-o\<close> a run that ends by itself is
  recorded and the process exits at once: no report is drawn, and in CSV mode the lines
  of the results log, the new record last, are printed.
\<close>

lemma csv_report_on_exit:
  "fst (exit csv s) = Exited 0 \<and>
   stdout_of (trace (snd (exit csv s))) =
     stdout_of (trace s) @ (if csv then map csv_line (results s) else []) \<and>
   csv_line r = fmt_d (wpm r) @ '','' @ fmt_d (cpm r) @ '','' @ fmt_f2 (accuracy r) @ [NL] \<and>
   is_number (fmt_d (wpm r)) \<and> is_number (fmt_d (cpm r)) \<and>
   (nerrs + ncorrect \<noteq> 0 \<longrightarrow>
      two_decimals (fmt_f2 (accuracy (spec_result indef nerrs ncorrect t)))) \<and>
   (contentFn ext cf (rng s) = (content, g') \<and>
    Start ext ty content timeout (pending s) = Some ((nerrs, ncorrect, t, 0), es) \<and> flag_o fl \<longrightarrow>
      fst (main_iter ext fl ty cf timeout s) = Exited 0 \<and>
      draws_of (trace (snd (main_iter ext fl ty cf timeout s))) = draws_of (trace s) \<and>
      stdout_of (trace (snd (main_iter ext fl ty cf timeout s))) =
        stdout_of (trace s) @
          (if flag_csv fl
           then map csv_line (results s @ [spec_result (indefinite ext) nerrs ncorrect t])
           else []))"
proof (intro conjI impI)
  show "fst (exit csv s) = Exited 0"
    by (rule exit_status)
  show "stdout_of (trace (snd (exit csv s))) =
          stdout_of (trace s) @ (if csv then map csv_line (results s) else [])"
    by (rule exit_stdout)
  show "csv_line r = fmt_d (wpm r) @ '','' @ fmt_d (cpm r) @ '','' @ fmt_f2 (accuracy r) @ [NL]"
    by (simp add: csv_line_def)
  show "is_number (fmt_d (wpm r))" and "is_number (fmt_d (cpm r))"
    by (rule is_number_fmt_d)+
next
  assume "nerrs + ncorrect \<noteq> 0"
  then obtain sg m where "spec_accuracy nerrs ncorrect = Finite sg m" and "0 \<le> m"
    using spec_accuracy_Finite by blast
  then show "two_decimals (fmt_f2 (accuracy (spec_result indef nerrs ncorrect t)))"
    by (simp add: spec_result_def two_decimals_fmt_f2)
next
  assume a: "contentFn ext cf (rng s) = (content, g') \<and>
    Start ext ty content timeout (pending s) = Some ((nerrs, ncorrect, t, 0), es) \<and> flag_o fl"
  then have c: "contentFn ext cf (rng s) = (content, g')"
    and st: "Start ext ty content timeout (pending s) = Some ((nerrs, ncorrect, t, 0), es)"
    and o: "flag_o fl"
    by simp_all
  note it = main_iter_natural [OF c st, of fl]
  show "fst (main_iter ext fl ty cf timeout s) = Exited 0"
    by (simp add: it Let_def o exit_status)
  show "draws_of (trace (snd (main_iter ext fl ty cf timeout s))) = draws_of (trace s)"
    by (simp add: it Let_def o exit_draws draws_of_append)
  show "stdout_of (trace (snd (main_iter ext fl ty cf timeout s))) =
          stdout_of (trace s) @
            (if flag_csv fl
             then map csv_line (results s @ [spec_result (indefinite ext) nerrs ncorrect t])
             else [])"
    by (simp add: it Let_def o exit_stdout stdout_of_append)
qed

text \<open>A one-shot run in CSV mode with 45 correct and 5 wrong keystrokes in one minute.\<close>

lemma csv_report_on_exit_witness:
  "stdout_of (trace (snd (main_iter (const_extern (5, 45, 60000000000, 0))
       (default_flags\<lparr>flag_csv := True, flag_o := True\<rparr>) (NewTyper black) (Fixed [''ab'']) (- 1)
       (init_state [] ())))) = [''9,45,90.00'' @ [NL]] \<and>
   two_decimals (fmt_f2 (accuracy (spec_result (\<lambda>x. 0) 5 45 60000000000)))"
proof -
  let ?r = "(5, 45, 60000000000, 0) :: outcome"
  let ?fl = "default_flags\<lparr>flag_csv := True, flag_o := True\<rparr>"
  have c: "contentFn (const_extern ?r) (Fixed [''ab'']) (rng (init_state [] ())) = ([''ab''], ())"
    by (simp add: contentFn_def init_state_def)
  have st: "Start (const_extern ?r) (NewTyper black) [''ab''] (- 1) (pending (init_state [] ())) =
              Some ((5, 45, 60000000000, 0), [])"
    by (simp add: const_extern_def const_Start_def init_state_def)
  have o: "flag_o ?fl" "flag_csv ?fl"
    by simp_all
  have ne: "(5::goint) + 45 \<noteq> 0"
    by simp
  have l: "csv_line (spec_result (indefinite (const_extern ?r)) 5 45 60000000000) = ''9,45,90.00'' @ [NL]"
    by code_simp
  show ?thesis
    using csv_report_on_exit [where fl = ?fl and ext = "const_extern ?r" and s = "init_state [] ()"
        and cf = "Fixed [''ab'']" and content = "[''ab'']" and g' = "()" and ty = "NewTyper black"
        and timeout = "- 1" and nerrs = 5 and ncorrect = 45 and t = 60000000000 and es = "[]"
        and indef = "\<lambda>x. 0"]
      c st o ne
    by (simp add: l init_state_def)
qed

text \<open>
  Claim C9, evaluated on the code. A one-shot run in CSV mode that counted no keystroke
  prints the line \<open>0,0,NaN\<close>: its accuracy is the NaN of \<open>0.0 / 0.0 * 100\<close>, which
  \<open>%.2f\<close> prints as \<open>NaN\<close>, not as a number with exactly two decimals. Every other
  part of the claim holds, by the lemma above.
\<close>

theorem csv_line_without_keystrokes:
  "stdout_of (trace (snd (main_iter (const_extern (0, 0, 60000000000, 0))
       (default_flags\<lparr>flag_csv := True, flag_o := True\<rparr>) (NewTyper black) (Fixed [''ab'']) (- 1)
       (init_state [] ())))) = [''0,0,NaN'' @ [NL]] \<and>
   two_decimals ''NaN'' = False"
  by code_simp

subsection \<open>The configuration every run gets\<close>

text \<open>
  Claim C5 as stated fails for a time limit of more than 9223372036 seconds: the product
  with \<open>1E9\<close> does not fit Go's 64-bit \<open>int\<close> and wraps around. With \<open>-t 9223372037\<close> the
  duration passed to \<open>Start\<close> is negative, not that many nanoseconds.
\<close>

theorem timeout_overflow:
  "starts_of (trace (snd (run_tests (const_extern (0, 0, 1, KeyCtrlC))
       (default_flags\<lparr>flag_t := 9223372037\<rparr>) black (Fixed [''ab'']) 1 (init_state [] ())))) =
     [(NewTyper black, [''ab''], 9223372037000000000)] \<and>
   sint (9223372037000000000 :: duration) = - 9223372036709551616"
  by code_simp

text \<open>
  On the engine of the specification, a run without a timer never ends by the timer, and
  with no key left it never ends at all.
\<close>

lemma engine_loop_no_timer:
  "engine_loop skip None st0 r es = Some (rs, r', es') \<Longrightarrow> rs \<noteq> TimedOut"
proof (induction es arbitrary: r)
  case Nil
  then show ?case by simp
next
  case (Cons e es)
  show ?case
  proof (cases "key_event_of e")
    case None
    with Cons show ?thesis
      by (simp add: Let_def fired_def)
  next
    case (Some ke)
    with Cons show ?thesis
      by (cases ke) (auto simp: Let_def fired_def split: option.splits if_splits)
  qed
qed

text \<open>
  Claim C5, amended. The timeout is computed once before the loop, and every call of
  \<open>Start\<close> receives the same value: the flag itself when it is \<open>-1\<close>, and otherwise its
  product with \<open>1E9\<close> in 64-bit arithmetic. Without \<open>-t\<close> the flag keeps its default
  \<open>-1\<close>, and \<open>-1\<close> is what every call receives. With \<open>-t n\<close> for \<open>0 < n \<le> 9223372036\<close>,
  every call receives \<open>n * 1000000000\<close> nanoseconds. The value \<open>-1\<close> means no time limit
  to the engine of the specification (\<open>Start_spec\<close>, modelled from the specification as
  \<open>typer.go\<close> is not among the sources): a run started with \<open>-1\<close> goes through the event
  loop without a timer, it never ends by timeout, and with no key pending it waits for
  ever.
\<close>

theorem timeout_passed_to_Start:
  "(flag_t fl = - 1 \<longrightarrow>
      (\<forall>x \<in> set (starts_of (trace (snd (run_tests ext fl cols cf fuel (init_state es g))))).
         snd (snd x) = - 1)) \<and>
   (0 < sint (flag_t fl) \<and> sint (flag_t fl) \<le> 9223372036 \<longrightarrow>
      (\<forall>x \<in> set (starts_of (trace (snd (run_tests ext fl cols cf fuel (init_state es g))))).
         sint (snd (snd x)) = sint (flag_t fl) * 1000000000)) \<and>
   (\<forall>x \<in> set (starts_of (trace (snd (run_tests ext fl cols cf fuel (init_state es g))))).
      snd (snd x) = (if flag_t fl \<noteq> - 1 then flag_t fl * 1000000000 else flag_t fl)) \<and>
   flag_t default_flags = - 1 \<and>
   (enter segs = Some init \<and> Start_spec ty segs (- 1) keys = Some (out, rest) \<longrightarrow>
      (\<exists>rs r. rs \<noteq> TimedOut \<and> out = finish rs r \<and>
         engine_loop (SkipWord ty) None init (start_run init) keys = Some (rs, r, rest))) \<and>
   (enter segs \<noteq> None \<longrightarrow> Start_spec ty segs (- 1) [] = None)"
proof -
  obtain cs where cs: "starts_of (trace (snd (run_tests ext fl cols cf fuel (init_state es g)))) =
      map (\<lambda>c. (if flag_noskip fl then (NewTyper cols)\<lparr>SkipWord := False\<rparr> else NewTyper cols, c,
                 if flag_t fl \<noteq> - 1 then flag_t fl * 1000000000 else flag_t fl)) cs"
    using run_tests_starts [of ext fl cols cf fuel es g] by (elim exE)
  have ne: "flag_t fl \<noteq> - 1" if "0 < sint (flag_t fl)"
    using that by auto
  have passed:
    "(flag_t fl = - 1 \<longrightarrow>
        (\<forall>x \<in> set (starts_of (trace (snd (run_tests ext fl cols cf fuel (init_state es g))))).
           snd (snd x) = - 1)) \<and>
     (0 < sint (flag_t fl) \<and> sint (flag_t fl) \<le> 9223372036 \<longrightarrow>
        (\<forall>x \<in> set (starts_of (trace (snd (run_tests ext fl cols cf fuel (init_state es g))))).
           sint (snd (snd x)) = sint (flag_t fl) * 1000000000)) \<and>
     (\<forall>x \<in> set (starts_of (trace (snd (run_tests ext fl cols cf fuel (init_state es g))))).
        snd (snd x) = (if flag_t fl \<noteq> - 1 then flag_t fl * 1000000000 else flag_t fl)) \<and>
     flag_t default_flags = - 1"
    unfolding cs by (auto simp: sint_seconds default_flags_def dest: ne)
  have unlimited:
    "\<exists>rs r. rs \<noteq> TimedOut \<and> out = finish rs r \<and>
       engine_loop (SkipWord ty) None init (start_run init) keys = Some (rs, r, rest)"
    if "enter segs = Some init \<and> Start_spec ty segs (- 1) keys = Some (out, rest)"
  proof -
    from that obtain rs r where
      l: "engine_loop (SkipWord ty) None init (start_run init) keys = Some (rs, r, rest)"
      and o: "out = finish rs r"
      by (auto simp: Start_spec_def split: option.splits)
    from l have "rs \<noteq> TimedOut"
      by (rule engine_loop_no_timer)
    with l o show ?thesis
      by blast
  qed
  have waits: "Start_spec ty segs (- 1) [] = None" if "enter segs \<noteq> None"
    using that by (auto simp: Start_spec_def)
  from passed unlimited waits show ?thesis
    by blast
qed

text \<open>
  Two runs under \<open>-t 30\<close>: both get 30000000000 nanoseconds. Two runs without \<open>-t\<close>: both
  get \<open>-1\<close>. On the engine of the specification with \<open>-1\<close>, the text \<open>ab\<close> typed with
  more than thirty years before each key ends by itself with two correct characters, and
  with no key it does not end; with a limit of one second the same keys come too late.
\<close>

theorem timeout_passed_to_Start_witness:
  "starts_of (trace (snd (run_tests (const_extern (0, 0, 1, KeyEscape))
       (default_flags\<lparr>flag_t := 30\<rparr>) black (Fixed [''ab'']) 2 (init_state [] ())))) =
     [(NewTyper black, [''ab''], 30000000000), (NewTyper black, [''ab''], 30000000000)] \<and>
   list_all (\<lambda>x. sint (snd (snd x)) = 30 * 1000000000)
     (starts_of (trace (snd (run_tests (const_extern (0, 0, 1, KeyEscape))
       (default_flags\<lparr>flag_t := 30\<rparr>) black (Fixed [''ab'']) 2 (init_state [] ()))))) \<and>
   starts_of (trace (snd (run_tests (const_extern (0, 0, 1, KeyEscape))
       default_flags black (Fixed [''ab'']) 2 (init_state [] ())))) =
     [(NewTyper black, [''ab''], - 1), (NewTyper black, [''ab''], - 1)] \<and>
   list_all (\<lambda>x. snd (snd x) = - 1)
     (starts_of (trace (snd (run_tests (const_extern (0, 0, 1, KeyEscape))
       default_flags black (Fixed [''ab'']) 2 (init_state [] ()))))) \<and>
   Start_spec (NewTyper black) [''ab''] (- 1)
       [EventKey 1000000000000000000 KeyRune (CHR ''a''),
        EventKey 1000000000000000000 KeyRune (CHR ''b'')] =
     Some ((0, 2, 2000000000000000000, 0), []) \<and>
   (\<exists>rs r. rs \<noteq> TimedOut \<and> (0, 2, 2000000000000000000, 0) = finish rs r \<and>
      engine_loop (SkipWord (NewTyper black)) None (new_session ''ab'', [])
          (start_run (new_session ''ab'', []))
          [EventKey 1000000000000000000 KeyRune (CHR ''a''),
           EventKey 1000000000000000000 KeyRune (CHR ''b'')] =
        Some (rs, r, [])) \<and>
   Start_spec (NewTyper black) [''ab''] (- 1) [] = None \<and>
   Start_spec (NewTyper black) [''ab''] 1000000000
       [EventKey 1000000000000000000 KeyRune (CHR ''a''),
        EventKey 1000000000000000000 KeyRune (CHR ''b'')] =
     Some ((0, 0, 1000000000, 0),
           [EventKey 999999999000000000 KeyRune (CHR ''a''),
            EventKey 1000000000000000000 KeyRune (CHR ''b'')])"
proof -
  let ?ext = "const_extern (0, 0, 1, KeyEscape)"
  let ?keys = "[EventKey 1000000000000000000 KeyRune (CHR ''a''),
                EventKey 1000000000000000000 KeyRune (CHR ''b'')]"
  have t: "0 < sint (flag_t (default_flags\<lparr>flag_t := 30\<rparr>)) \<and>
           sint (flag_t (default_flags\<lparr>flag_t := 30\<rparr>)) \<le> 9223372036"
    by simp
  have d: "flag_t default_flags = - 1"
    by (simp add: default_flags_def)
  have e30: "starts_of (trace (snd (run_tests ?ext
       (default_flags\<lparr>flag_t := 30\<rparr>) black (Fixed [''ab'']) 2 (init_state [] ())))) =
     [(NewTyper black, [''ab''], 30000000000), (NewTyper black, [''ab''], 30000000000)]"
    by code_simp
  have e1: "starts_of (trace (snd (run_tests ?ext default_flags black (Fixed [''ab'']) 2
       (init_state [] ())))) =
     [(NewTyper black, [''ab''], - 1), (NewTyper black, [''ab''], - 1)]"
    by code_simp
  have en: "enter [''ab''] = Some (new_session ''ab'', [])"
    by simp
  have st: "Start_spec (NewTyper black) [''ab''] (- 1) ?keys =
      Some ((0, 2, 2000000000000000000, 0), [])"
    by code_simp
  have lim: "Start_spec (NewTyper black) [''ab''] 1000000000 ?keys =
      Some ((0, 0, 1000000000, 0),
            [EventKey 999999999000000000 KeyRune (CHR ''a''),
             EventKey 1000000000000000000 KeyRune (CHR ''b'')])"
    by code_simp
  note a = timeout_passed_to_Start [where fl = "default_flags\<lparr>flag_t := 30\<rparr>" and ext = ?ext
      and cols = black and cf = "Fixed [''ab'']" and fuel = 2 and es = "[]" and g = "()"]
  note b = timeout_passed_to_Start [where fl = default_flags and ext = ?ext
      and cols = black and cf = "Fixed [''ab'']" and fuel = 2 and es = "[]" and g = "()"
      and segs = "[''ab'']" and init = "(new_session ''ab'', [])" and ty = "NewTyper black"
      and keys = ?keys and out = "(0, 2, 2000000000000000000, 0)" and rest = "[]"]
  have p30: "list_all (\<lambda>x. sint (snd (snd x)) = 30 * 1000000000)
     (starts_of (trace (snd (run_tests ?ext
       (default_flags\<lparr>flag_t := 30\<rparr>) black (Fixed [''ab'']) 2 (init_state [] ())))))"
    using a t by (simp add: list_all_iff)
  have p1: "list_all (\<lambda>x. snd (snd x) = - 1)
     (starts_of (trace (snd (run_tests ?ext default_flags black (Fixed [''ab'']) 2
       (init_state [] ())))))"
    using b d by (simp add: list_all_iff)
  have ex: "\<exists>rs r. rs \<noteq> TimedOut \<and> (0, 2, 2000000000000000000, 0) = finish rs r \<and>
      engine_loop (SkipWord (NewTyper black)) None (new_session ''ab'', [])
          (start_run (new_session ''ab'', [])) ?keys = Some (rs, r, [])"
    using b en st by blast
  have w: "Start_spec (NewTyper black) [''ab''] (- 1) [] = None"
    using b en by blast
  show ?thesis
    using e30 p30 e1 p1 st ex w lim by blast
qed

text \<open>
  Claim C6. The typer that \<open>NewTyper\<close> returns has \<open>SkipWord\<close> set, and \<open>-noskip\<close> is off
  by default. \<open>main\<close> clears \<open>SkipWord\<close> exactly when \<open>-noskip\<close> is given, once, before
  the loop: every call of \<open>Start\<close> receives the same typer, whose \<open>SkipWord\<close> is the
  negation of the flag.
\<close>

theorem SkipWord_configuration:
  "(\<forall>x \<in> set (starts_of (trace (snd (run_tests ext fl cols cf fuel (init_state es g))))).
      fst x = (if flag_noskip fl then (NewTyper cols)\<lparr>SkipWord := False\<rparr> else NewTyper cols) \<and>
      SkipWord (fst x) = (\<not> flag_noskip fl)) \<and>
   SkipWord (NewTyper cols) \<and> \<not> flag_noskip default_flags"
proof -
  obtain cs where cs: "starts_of (trace (snd (run_tests ext fl cols cf fuel (init_state es g)))) =
      map (\<lambda>c. (if flag_noskip fl then (NewTyper cols)\<lparr>SkipWord := False\<rparr> else NewTyper cols, c,
                 if flag_t fl \<noteq> - 1 then flag_t fl * 1000000000 else flag_t fl)) cs"
    using run_tests_starts [of ext fl cols cf fuel es g] by (elim exE)
  show ?thesis
    unfolding cs by (auto simp: NewTyper_def default_flags_def)
qed

text \<open>Two runs under \<open>-noskip\<close>: both get a typer with \<open>SkipWord\<close> cleared.\<close>

theorem SkipWord_configuration_witness:
  "starts_of (trace (snd (run_tests (const_extern (0, 0, 1, KeyEscape))
       (default_flags\<lparr>flag_noskip := True\<rparr>) black (Fixed [''ab'']) 2 (init_state [] ())))) =
     [(\<lparr>SkipWord = False, colors = black\<rparr>, [''ab''], - 1),
      (\<lparr>SkipWord = False, colors = black\<rparr>, [''ab''], - 1)] \<and>
   list_all (\<lambda>x. SkipWord (fst x) = False)
     (starts_of (trace (snd (run_tests (const_extern (0, 0, 1, KeyEscape))
       (default_flags\<lparr>flag_noskip := True\<rparr>) black (Fixed [''ab'']) 2 (init_state [] ())))))"
proof -
  have e: "starts_of (trace (snd (run_tests (const_extern (0, 0, 1, KeyEscape))
       (default_flags\<lparr>flag_noskip := True\<rparr>) black (Fixed [''ab'']) 2 (init_state [] ())))) =
     [(\<lparr>SkipWord = False, colors = black\<rparr>, [''ab''], - 1),
      (\<lparr>SkipWord = False, colors = black\<rparr>, [''ab''], - 1)]"
    by code_simp
  show ?thesis
    using SkipWord_configuration [of "const_extern (0, 0, 1, KeyEscape)"
        "default_flags\<lparr>flag_noskip := True\<rparr>" black "Fixed [''ab'']" 2 "[]" "()"] e
    by (simp add: list_all_iff)
qed

section \<open>Properties of the start-up\<close>

subsection \<open>The colours\<close>





subsection \<open>The paragraphs of piped text\<close>

text \<open>
  The proof goes through the lines of the text. Dropping line breaks at both ends and
  squeezing runs of line breaks change the empty lines only, so they keep the groups of
  lines; and on a text that does not begin or end with a line break and has no three line
  breaks in a row, cutting at double line breaks gives the groups.
\<close>

lemma Replace_CR: "Replace b [CR] [] = filter (\<lambda>c. c \<noteq> CR) b"
  by (induction b) (simp_all add: has_prefix_def)

lemma lines_from_snoc_NL: "lines_from l (x @ [NL]) = lines_from l x @ [[]]"
  by (induction x arbitrary: l) simp_all

lemma lines_from_breaks: "lines_from [] (replicate j NL @ x) = replicate j [] @ lines_from [] x"
  by (induction j) simp_all

lemma groups_from_snoc_empty: "groups_from g (ls @ [[]]) = groups_from g ls"
  by (induction ls arbitrary: g) simp_all

lemma groups_from_empties: "groups_from [] (replicate j [] @ ls) = groups_from [] ls"
  by (induction j) simp_all

lemma groups_from_trailing_empties: "groups_from g (ls @ replicate j []) = groups_from g ls"
proof (induction j)
  case 0
  show ?case by simp
next
  case (Suc j)
  have "ls @ replicate (Suc j) [] = (ls @ replicate j []) @ [[]]"
    by (simp add: replicate_append_same)
  then show ?case
    by (simp only: groups_from_snoc_empty Suc)
qed

lemma lines_from_trailing_breaks:
  "lines_from l (x @ replicate j NL) = lines_from l x @ replicate j []"
proof (induction j)
  case 0
  show ?case by simp
next
  case (Suc j)
  have "x @ replicate (Suc j) NL = (x @ replicate j NL) @ [NL]"
    by (simp add: replicate_append_same)
  then show ?case
    by (simp only: lines_from_snoc_NL Suc) (simp add: replicate_append_same)
qed

lemma breaks_split: "\<exists>j. s = replicate j NL @ dropWhile (\<lambda>c. c = NL) s"
proof -
  have "takeWhile (\<lambda>c. c = NL) s = replicate (length (takeWhile (\<lambda>c. c = NL) s)) NL"
    by (induction s) simp_all
  then have "s = replicate (length (takeWhile (\<lambda>c. c = NL) s)) NL @ dropWhile (\<lambda>c. c = NL) s"
    using takeWhile_dropWhile_id [of "\<lambda>c. c = NL" s] by simp
  then show ?thesis ..
qed

lemma groups_dropWhile:
  "groups_from [] (lines_from [] (dropWhile (\<lambda>c. c = NL) s)) = groups_from [] (lines_from [] s)"
proof -
  obtain j where "s = replicate j NL @ dropWhile (\<lambda>c. c = NL) s"
    using breaks_split by blast
  then have "lines_from [] s = replicate j [] @ lines_from [] (dropWhile (\<lambda>c. c = NL) s)"
    using lines_from_breaks [of j "dropWhile (\<lambda>c. c = NL) s"] by simp
  then show ?thesis
    by (simp add: groups_from_empties)
qed

lemma trailing_split: "\<exists>j. s = rev (dropWhile (\<lambda>c. c = NL) (rev s)) @ replicate j NL"
proof -
  obtain j where "rev s = replicate j NL @ dropWhile (\<lambda>c. c = NL) (rev s)"
    using breaks_split by blast
  then have "rev (rev s) = rev (replicate j NL @ dropWhile (\<lambda>c. c = NL) (rev s))"
    by simp
  then have "s = rev (dropWhile (\<lambda>c. c = NL) (rev s)) @ replicate j NL"
    by simp
  then show ?thesis ..
qed

lemma Trim_breaks: "Trim s [NL] = rev (dropWhile (\<lambda>c. c = NL) (rev (dropWhile (\<lambda>c. c = NL) s)))"
  by (simp add: Trim_def)

lemma groups_Trim:
  "groups_from [] (lines_from [] (Trim s [NL])) = groups_from [] (lines_from [] s)"
proof -
  let ?d = "dropWhile (\<lambda>c. c = NL) s"
  obtain j where j: "?d = Trim s [NL] @ replicate j NL"
    using trailing_split [of ?d] by (auto simp: Trim_breaks)
  have "groups_from [] (lines_from [] ?d) = groups_from [] (lines_from [] (Trim s [NL]))"
    by (subst j) (simp add: lines_from_trailing_breaks groups_from_trailing_empties)
  then show ?thesis
    by (simp add: groups_dropWhile)
qed


lemma has_prefix_single: "has_prefix cs [c] \<longleftrightarrow> (\<exists>cs'. cs = c # cs')"
  by (cases cs) (simp_all add: has_prefix_def)

lemma has_prefix_double: "has_prefix cs [a, b] \<longleftrightarrow> (\<exists>cs'. cs = a # b # cs')"
proof (cases cs)
  case Nil
  then show ?thesis by (simp add: has_prefix_def)
next
  case (Cons x xs)
  then show ?thesis by (cases xs) (auto simp: has_prefix_def)
qed

lemma groups_from_after_blank:
  "groups_from g (l # [] # X) =
     (if l = [] then (if g = [] then groups_from [] X else g # groups_from [] X)
      else (g @ [l]) # groups_from [] X)"
  by simp

lemma groups_from_blanks:
  assumes "0 < j"
  shows "groups_from g (l # replicate j [] @ X) = groups_from g (l # [] # X)"
proof -
  obtain i where j: "j = Suc i"
    using assms by (cases j) simp_all
  have "groups_from g (l # [] # replicate i [] @ X) = groups_from g (l # [] # X)"
    by (simp only: groups_from_after_blank groups_from_empties)
  then show ?thesis
    by (simp add: j)
qed

lemma groups_squeeze:
  "groups_from g (lines_from l (squeeze_breaks s)) = groups_from g (lines_from l s)"
proof (induction s arbitrary: l g rule: squeeze_breaks.induct)
  case 1
  show ?case by simp
next
  case (2 c cs)
  show ?case
  proof (cases "c = NL \<and> has_prefix cs [NL]")
    case True
    let ?rest = "dropWhile (\<lambda>x. x = NL) cs"
    obtain j where j: "cs = replicate j NL @ ?rest"
      using breaks_split by blast
    obtain cs' where "cs = NL # cs'"
      using True by (auto simp: has_prefix_single)
    then have "length ?rest < length cs"
      by (simp add: length_dropWhile_le less_Suc_eq_le)
    then have "?rest \<noteq> cs"
      by auto
    with j have "0 < j"
      by (cases j) auto
    have ih: "groups_from [] (lines_from [] (squeeze_breaks ?rest)) = groups_from [] (lines_from [] ?rest)"
      using "2.IH"(1) True by simp
    have "groups_from g (lines_from l (c # cs)) =
            groups_from g (l # replicate j [] @ lines_from [] ?rest)"
      using True by (subst j) (simp add: lines_from_breaks)
    also have "\<dots> = groups_from g (l # [] # lines_from [] ?rest)"
      by (rule groups_from_blanks [OF \<open>0 < j\<close>])
    also have "\<dots> = groups_from g (l # [] # lines_from [] (squeeze_breaks ?rest))"
      by (simp only: groups_from_after_blank ih)
    also have "\<dots> = groups_from g (lines_from l (squeeze_breaks (c # cs)))"
      using True by simp
    finally show ?thesis ..
  next
    case False
    then have sq: "squeeze_breaks (c # cs) = c # squeeze_breaks cs"
      by auto
    show ?thesis
    proof (cases "c = NL")
      case True
      with False have "\<not> has_prefix cs [NL]"
        by simp
      then show ?thesis
        using "2.IH"(2) [OF False] True by simp
    next
      case nl: False
      show ?thesis
        using "2.IH"(2) [OF False] nl by (simp add: sq)
    qed
  qed
qed


lemma ntb_tl: "no_triple_break (c # cs) \<Longrightarrow> no_triple_break cs"
proof (cases cs)
  case Nil
  then show ?thesis by simp
next
  case (Cons x xs)
  assume "no_triple_break (c # cs)"
  with Cons show ?thesis by (cases xs) simp_all
qed

lemma ntb_Cons:
  assumes "no_triple_break r" and "c \<noteq> NL \<or> r = [] \<or> hd r \<noteq> NL"
  shows "no_triple_break (c # r)"
proof (cases r)
  case Nil
  then show ?thesis by simp
next
  case (Cons x xs)
  with assms show ?thesis by (cases xs) auto
qed

lemma ntb_Cons2:
  assumes "no_triple_break r" and "r = [] \<or> hd r \<noteq> NL"
  shows "no_triple_break (a # b # r)"
proof (cases r)
  case Nil
  then show ?thesis by simp
next
  case (Cons x xs)
  with assms show ?thesis by (cases xs) auto
qed

lemma ntb_prefix: "no_triple_break (p @ q) \<Longrightarrow> no_triple_break p"
  by (induction p rule: no_triple_break.induct) simp_all

lemma ntb_drop: "no_triple_break s \<Longrightarrow> no_triple_break (drop n s)"
proof (induction n arbitrary: s)
  case 0
  then show ?case by simp
next
  case (Suc n)
  then show ?case
    by (cases s) (auto dest: ntb_tl)
qed

lemma squeeze_breaks_hd: "squeeze_breaks s = [] \<or> hd (squeeze_breaks s) \<noteq> NL" if "s = [] \<or> hd s \<noteq> NL"
  using that by (cases s) auto

lemma ntb_squeeze: "no_triple_break (squeeze_breaks s)"
proof (induction s rule: squeeze_breaks.induct)
  case 1
  show ?case by simp
next
  case (2 c cs)
  show ?case
  proof (cases "c = NL \<and> has_prefix cs [NL]")
    case True
    let ?rest = "dropWhile (\<lambda>x. x = NL) cs"
    have "?rest = [] \<or> hd ?rest \<noteq> NL"
      using hd_dropWhile [of "\<lambda>x. x = NL" cs] by blast
    then have "squeeze_breaks ?rest = [] \<or> hd (squeeze_breaks ?rest) \<noteq> NL"
      by (rule squeeze_breaks_hd)
    with "2.IH"(1) [OF True] have "no_triple_break (NL # NL # squeeze_breaks ?rest)"
      by (intro ntb_Cons2)
    with True show ?thesis by simp
  next
    case False
    have ih: "no_triple_break (squeeze_breaks cs)"
      by (rule "2.IH"(2) [OF False])
    have "c \<noteq> NL \<or> cs = [] \<or> hd cs \<noteq> NL"
      using False by (cases cs) (auto simp: has_prefix_single)
    then have "c \<noteq> NL \<or> squeeze_breaks cs = [] \<or> hd (squeeze_breaks cs) \<noteq> NL"
      using squeeze_breaks_hd [of cs] by auto
    with ih have "no_triple_break (c # squeeze_breaks cs)"
      by (intro ntb_Cons)
    with False show ?thesis by auto
  qed
qed

lemma Trim_tidy:
  "no_triple_break s \<Longrightarrow> no_triple_break (Trim s [NL])"
  "Trim s [NL] = [] \<or> hd (Trim s [NL]) \<noteq> NL"
  "Trim s [NL] = [] \<or> last (Trim s [NL]) \<noteq> NL"
proof -
  let ?d = "dropWhile (\<lambda>c. c = NL) s"
  obtain j where j: "?d = Trim s [NL] @ replicate j NL"
    using trailing_split [of ?d] by (auto simp: Trim_breaks)
  show "Trim s [NL] = [] \<or> hd (Trim s [NL]) \<noteq> NL"
  proof (cases "Trim s [NL] = []")
    case True
    then show ?thesis ..
  next
    case False
    then have eq: "hd ?d = hd (Trim s [NL])"
      by (subst j) simp
    have "?d \<noteq> []"
      using False by (subst j) simp
    then have "hd ?d \<noteq> NL"
      by (rule hd_dropWhile)
    then show ?thesis
      by (simp only: eq) simp
  qed
  show "Trim s [NL] = [] \<or> last (Trim s [NL]) \<noteq> NL"
  proof (cases "Trim s [NL] = []")
    case True
    then show ?thesis ..
  next
    case False
    then have "dropWhile (\<lambda>c. c = NL) (rev ?d) \<noteq> []"
      by (simp add: Trim_breaks)
    then have "hd (dropWhile (\<lambda>c. c = NL) (rev ?d)) \<noteq> NL"
      by (rule hd_dropWhile)
    moreover have "last (Trim s [NL]) = hd (dropWhile (\<lambda>c. c = NL) (rev ?d))"
      by (simp only: Trim_breaks last_rev)
    ultimately show ?thesis
      by simp
  qed
  assume "no_triple_break s"
  then have "no_triple_break ?d"
    by (simp add: dropWhile_eq_drop ntb_drop)
  then show "no_triple_break (Trim s [NL])"
    by (subst (asm) j) (rule ntb_prefix)
qed

lemma join_lines_Cons: "ls \<noteq> [] \<Longrightarrow> join_lines (x # ls) = x @ NL # join_lines ls"
  by (cases ls) simp_all

lemma join_lines_snoc_char: "join_lines (g @ [l]) @ [c] = join_lines (g @ [l @ [c]])"
  by (induction g) (simp_all add: join_lines_Cons)

lemma join_lines_snoc_empty: "join_lines (g @ [l]) @ [NL] = join_lines ((g @ [l]) @ [[]])"
  by (induction g) (simp_all add: join_lines_Cons)

lemma Split_from_tidy:
  assumes "no_triple_break v" and "v = [] \<or> last v \<noteq> NL"
    and "l \<noteq> [] \<or> (v \<noteq> [] \<and> hd v \<noteq> NL)"
  shows "Split_from [NL, NL] (join_lines (g @ [l])) v =
           map join_lines (groups_from g (lines_from l v))"
  using assms
proof (induction "length v" arbitrary: v l g rule: less_induct)
  case less
  show ?case
  proof (cases v)
    case Nil
    with less.prems show ?thesis by simp
  next
    case (Cons c cs)
    have ntb_cs: "no_triple_break cs"
      using less.prems(1) Cons by (auto dest: ntb_tl)
    have last_cs: "cs = [] \<or> last cs \<noteq> NL"
      using less.prems(2) Cons by (cases cs) auto
    show ?thesis
    proof (cases "c = NL")
      case False
      then have np: "\<not> has_prefix (c # cs) [NL, NL]"
        by (simp add: has_prefix_double)
      have "Split_from [NL, NL] (join_lines (g @ [l @ [c]])) cs =
              map join_lines (groups_from g (lines_from (l @ [c]) cs))"
        using last_cs by (intro less.hyps) (simp_all add: Cons ntb_cs)
      with False np show ?thesis
        by (simp add: Cons join_lines_snoc_char)
    next
      case True
      then have l: "l \<noteq> []"
        using less.prems(3) Cons by simp
      have cs: "cs \<noteq> []"
        using less.prems(2) Cons True by auto
      show ?thesis
      proof (cases "has_prefix cs [NL]")
        case False
        then have np: "\<not> has_prefix (c # cs) [NL, NL]"
          by (auto simp: has_prefix_double has_prefix_single)
        have hd: "hd cs \<noteq> NL"
          using False cs by (cases cs) (auto simp: has_prefix_single)
        have "Split_from [NL, NL] (join_lines ((g @ [l]) @ [[]])) cs =
                map join_lines (groups_from (g @ [l]) (lines_from [] cs))"
          using last_cs cs by (intro less.hyps) (simp_all add: Cons ntb_cs hd)
        with True np l show ?thesis
          by (simp add: Cons join_lines_snoc_empty)
      next
        case pre: True
        then obtain cs' where cs': "cs = NL # cs'"
          by (auto simp: has_prefix_single)
        have p: "has_prefix (c # cs) [NL, NL]"
          using True cs' by (simp add: has_prefix_double)
        have ne: "cs' \<noteq> []"
          using last_cs cs' by auto
        have hd: "hd cs' \<noteq> NL"
          using less.prems(1) Cons True cs' ne by (cases cs') auto
        have ntb': "no_triple_break cs'"
          using ntb_cs cs' by (auto dest: ntb_tl)
        have last': "cs' = [] \<or> last cs' \<noteq> NL"
          using last_cs cs' ne by auto
        have "Split_from [NL, NL] (join_lines ([] @ [[]])) cs' =
                map join_lines (groups_from [] (lines_from [] cs'))"
          using last' ne by (intro less.hyps) (simp_all add: Cons cs' ntb' hd)
        with True p l cs' show ?thesis
          by (simp add: Cons)
      qed
    qed
  qed
qed


lemma Split_from_nonempty: "Split_from sep piece s \<noteq> []"
  by (induction sep piece s rule: Split_from.induct) auto

lemma paragraphs_of_spec:
  "paragraphs_of b = (if paragraphs_by_empty_lines b = [] then [[]] else paragraphs_by_empty_lines b)"
proof -
  let ?s = "filter (\<lambda>c. c \<noteq> CR) b"
  let ?u = "Trim (squeeze_breaks ?s) [NL]"
  have code: "paragraphs_of b = Split_from [NL, NL] [] ?u"
    by (simp add: paragraphs_of_def Split_def Replace_CR)
  have spec: "paragraphs_by_empty_lines b = map join_lines (groups_from [] (lines_from [] ?u))"
    by (simp add: paragraphs_by_empty_lines_def lines_of_def groups_Trim groups_squeeze)
  show ?thesis
  proof (cases "?u = []")
    case True
    then show ?thesis
      by (simp add: code spec)
  next
    case False
    have "no_triple_break ?u"
      by (intro Trim_tidy(1) ntb_squeeze)
    moreover have "?u = [] \<or> last ?u \<noteq> NL"
      by (rule Trim_tidy(3))
    moreover have "[] \<noteq> [] \<or> (?u \<noteq> [] \<and> hd ?u \<noteq> NL)"
      using False Trim_tidy(2) [of "squeeze_breaks ?s"] by simp
    ultimately have "Split_from [NL, NL] (join_lines ([] @ [[]])) ?u =
        map join_lines (groups_from [] (lines_from [] ?u))"
      by (rule Split_from_tidy)
    then have eq: "paragraphs_of b = paragraphs_by_empty_lines b"
      by (simp add: code spec)
    then have "paragraphs_by_empty_lines b \<noteq> []"
      using Split_from_nonempty [of "[NL, NL]" "[]" ?u] by (simp add: code)
    with eq show ?thesis
      by simp
  qed
qed

lemma blank_lines_kept:
  "list_all (\<lambda>l. l = [] \<or> \<not> is_blank l) ls \<Longrightarrow> map (\<lambda>l. if is_blank l then [] else l) ls = ls"
  by (induction ls) auto

text \<open>
  Claim C4 as stated fails in two places. A line that holds only a space is blank, yet
  it is no boundary for \<open>main\<close>, which cuts at empty lines: the text \<open>ab\<close>, a line of one
  space, \<open>cd\<close> has two paragraphs by blank lines and gives one segment. And the empty
  text, which has no paragraph at all (its one line is blank), still gives one segment.
\<close>

theorem blank_line_no_boundary:
  "paragraphs_by_blank_lines spaced_text = [''ab'', ''cd''] \<and>
   paragraphs_of spaced_text = [''ab'' @ [NL] @ '' '' @ [NL] @ ''cd''] \<and>
   read_content (const_extern (0, 0, 0, 0)) default_flags (Piped spaced_text) =
     Some (Fixed [''ab '' @ [NL] @ ''  '' @ [NL] @ ''cd'']) \<and>
   paragraphs_by_blank_lines [] = [] \<and>
   paragraphs_of [] = [[]] \<and>
   read_content (const_extern (0, 0, 0, 0)) default_flags (Piped []) = Some (Fixed [[]])"
  by code_simp

text \<open>
  Claim C4, amended. With \<open>-raw\<close> the piped text is the only segment, unchanged. Without
  it the boundaries are the runs of empty lines (carriage returns dropped; a line of
  spaces is not empty): the segments are made from the paragraphs by empty lines, one
  segment from each paragraph in the order of the text, by \<open>wrap_paragraph\<close>. A text
  without any paragraph gives exactly one segment, the one \<open>wrap_paragraph\<close> makes from
  the empty text. Where no line of the text is blank without being empty, the
  paragraphs by empty lines are the paragraphs by blank lines. Every run gets these same
  segments.
\<close>

theorem piped_text_segments:
  "(flag_raw fl \<longrightarrow> read_content ext fl (Piped b) = Some (Fixed [b])) \<and>
   (\<not> flag_raw fl \<and> paragraphs_by_empty_lines b \<noteq> [] \<longrightarrow>
      read_content ext fl (Piped b) =
        Some (Fixed (map (wrap_paragraph ext (flag_w fl)) (paragraphs_by_empty_lines b)))) \<and>
   (\<not> flag_raw fl \<and> paragraphs_by_empty_lines b = [] \<longrightarrow>
      read_content ext fl (Piped b) = Some (Fixed [wrap_paragraph ext (flag_w fl) []])) \<and>
   (list_all (\<lambda>l. l = [] \<or> \<not> is_blank l) (lines_of (filter (\<lambda>c. c \<noteq> CR) b)) \<longrightarrow>
      paragraphs_by_blank_lines b = paragraphs_by_empty_lines b) \<and>
   contentFn ext (Fixed segs) g = (segs, g)"
proof (intro conjI impI)
  show "flag_raw fl \<Longrightarrow> read_content ext fl (Piped b) = Some (Fixed [b])"
    by (simp add: read_content_def)
  show "\<not> flag_raw fl \<and> paragraphs_by_empty_lines b \<noteq> [] \<Longrightarrow>
      read_content ext fl (Piped b) =
        Some (Fixed (map (wrap_paragraph ext (flag_w fl)) (paragraphs_by_empty_lines b)))"
    by (simp add: read_content_def paragraphs_of_spec)
  show "\<not> flag_raw fl \<and> paragraphs_by_empty_lines b = [] \<Longrightarrow>
      read_content ext fl (Piped b) = Some (Fixed [wrap_paragraph ext (flag_w fl) []])"
    by (simp add: read_content_def paragraphs_of_spec)
  show "list_all (\<lambda>l. l = [] \<or> \<not> is_blank l) (lines_of (filter (\<lambda>c. c \<noteq> CR) b)) \<Longrightarrow>
      paragraphs_by_blank_lines b = paragraphs_by_empty_lines b"
    by (simp add: paragraphs_by_blank_lines_def paragraphs_by_empty_lines_def blank_lines_kept)
  show "contentFn ext (Fixed segs) g = (segs, g)"
    by (simp add: contentFn_def)
qed

text \<open>
  The sample text cut into its three paragraphs, which are its paragraphs by blank lines
  too, and kept whole under \<open>-raw\<close>; a text of one line break gives one empty segment.
\<close>

theorem piped_text_segments_witness:
  "read_content (const_extern (0, 0, 0, 0)) default_flags (Piped sample_text) =
     Some (Fixed [''ab '' @ [NL] @ ''cd'', ''e f'', ''g'']) \<and>
   read_content (const_extern (0, 0, 0, 0)) (default_flags\<lparr>flag_raw := True\<rparr>) (Piped sample_text) =
     Some (Fixed [sample_text]) \<and>
   read_content (const_extern (0, 0, 0, 0)) default_flags (Piped [NL]) = Some (Fixed [[]]) \<and>
   paragraphs_by_blank_lines sample_text = [''ab'' @ [NL] @ ''cd'', '' e f'', ''g'']"
proof -
  let ?ext = "const_extern (0, 0, 0, 0)"
  have p: "paragraphs_by_empty_lines sample_text = [''ab'' @ [NL] @ ''cd'', '' e f'', ''g'']"
    by code_simp
  have q: "paragraphs_by_empty_lines [NL] = []"
    by code_simp
  have l: "list_all (\<lambda>l. l = [] \<or> \<not> is_blank l) (lines_of (filter (\<lambda>c. c \<noteq> CR) sample_text))"
    by code_simp
  have w: "map (wrap_paragraph ?ext (flag_w default_flags))
             [''ab'' @ [NL] @ ''cd'', '' e f'', ''g''] = [''ab '' @ [NL] @ ''cd'', ''e f'', ''g'']"
    by code_simp
  have w0: "wrap_paragraph ?ext (flag_w default_flags) [] = []"
    by code_simp
  have r: "\<not> flag_raw default_flags" "flag_raw (default_flags\<lparr>flag_raw := True\<rparr>)"
    by (simp_all add: default_flags_def)
  have a: "read_content ?ext default_flags (Piped sample_text) =
      Some (Fixed (map (wrap_paragraph ?ext (flag_w default_flags))
                     [''ab'' @ [NL] @ ''cd'', '' e f'', ''g'']))"
    using piped_text_segments [where fl = default_flags and ext = ?ext and b = sample_text] r(1)
    by (simp only: p) simp
  have b: "read_content ?ext (default_flags\<lparr>flag_raw := True\<rparr>) (Piped sample_text) =
      Some (Fixed [sample_text])"
    using piped_text_segments [where fl = "default_flags\<lparr>flag_raw := True\<rparr>"
        and ext = ?ext and b = sample_text] r(2)
    by simp
  have c: "read_content ?ext default_flags (Piped [NL]) =
      Some (Fixed [wrap_paragraph ?ext (flag_w default_flags) []])"
    using piped_text_segments [where fl = default_flags and ext = ?ext and b = "[NL]"] r(1) q
    by simp
  have d: "paragraphs_by_blank_lines sample_text = [''ab'' @ [NL] @ ''cd'', '' e f'', ''g'']"
    using piped_text_segments [where fl = default_flags and ext = ?ext and b = sample_text] l p
    by simp
  show ?thesis
    using a b c d by (simp only: w w0) 
qed

section \<open>Properties of the engine of the specification\<close>

subsection \<open>The elapsed time of a finished run\<close>

lemma sint_floor_tick: "0 < sint (floor_tick d)"
  by (simp add: floor_tick_def word_sless_alt)

lemma Start_spec_floor:
  assumes "Start_spec ty segs limit es = Some ((nerrs, ncorrect, t, k), es')"
  shows "\<exists>d. t = floor_tick d"
  using assms
  by (auto simp: Start_spec_def Let_def finish_def split: option.splits)

lemma f64_of_int_pos:
  assumes "0 < sint t"
  shows "\<exists>m. f64_of_int t = Finite False m \<and> 0 < m"
proof -
  have "0 < \<bar>sint t\<bar>"
    using assms by simp
  then have "(0::rat) < of_int \<bar>sint t\<bar>"
    by (simp only: of_int_0_less_iff)
  then have "0 < round_f64 (of_int \<bar>sint t\<bar>)"
    by (rule round_f64_pos)
  moreover have "\<not> sint t < 0"
    using assms by simp
  ultimately show ?thesis
    unfolding f64_of_int_def by blast
qed

lemma minutes_pos:
  assumes "0 < sint t"
  shows "\<exists>m. f64_div (f64_of_int t) f64_60E9 = Finite False m \<and> 0 < m"
proof -
  obtain a where a: "f64_of_int t = Finite False a" and "0 < a"
    using f64_of_int_pos [OF assms] by blast
  then have "0 < round_f64 (a / 60000000000)"
    by (intro round_f64_pos) simp
  then show ?thesis
    by (simp add: a f64_60E9_def)
qed

lemma cpm_quotient_finite:
  assumes "0 < m"
  shows "\<exists>sg q. f64_div (f64_of_int ncorrect) (Finite False m) = Finite sg q"
  using assms by (simp add: f64_of_int_def)

text \<open>
  Claim C7. Every tuple that the engine of the specification returns has an elapsed time
  \<open>t\<close> of at least one nanosecond, whatever the exit key. So in the caller's
  \<open>ncorrect / (t / 60e9)\<close> the divisor \<open>t / 60e9\<close> is a positive finite number, and the
  quotient is finite: no division by zero, no infinity and no NaN.
\<close>

theorem finished_run_duration_positive:
  assumes "Start_spec ty segs limit es = Some ((nerrs, ncorrect, t, k), es')"
  shows "0 < sint t \<and>
         (\<exists>m. f64_div (f64_of_int t) f64_60E9 = Finite False m \<and> 0 < m) \<and>
         (\<exists>sg q. f64_div (f64_of_int ncorrect) (f64_div (f64_of_int t) f64_60E9) = Finite sg q)"
proof -
  obtain d where "t = floor_tick d"
    using Start_spec_floor [OF assms] by blast
  then have t: "0 < sint t"
    by (simp add: sint_floor_tick)
  then obtain m where m: "f64_div (f64_of_int t) f64_60E9 = Finite False m" "0 < m"
    using minutes_pos by blast
  with t cpm_quotient_finite [of m ncorrect] show ?thesis
    by simp
qed

text \<open>
  One character typed with no delay: the clock shows no time passed, and the run returns
  one nanosecond.
\<close>

theorem finished_run_duration_positive_witness:
  "Start_spec (NewTyper black) [''a''] (- 1) [EventKey 0 KeyRune (CHR ''a'')] =
     Some ((0, 1, 1, 0), []) \<and>
   0 < sint (1 :: duration) \<and>
   f64_div (f64_of_int 1) (f64_div (f64_of_int 1) f64_60E9) =
     Finite False 60000000000"
proof -
  have e: "Start_spec (NewTyper black) [''a''] (- 1) [EventKey 0 KeyRune (CHR ''a'')] =
      Some ((0, 1, 1, 0), [])"
    by code_simp
  have q: "f64_div (f64_of_int 1) (f64_div (f64_of_int 1) f64_60E9) = Finite False 60000000000"
    by code_simp
  show ?thesis
    using finished_run_duration_positive [OF e] e q by simp
qed

subsection \<open>A run with a time limit returns\<close>

text \<open>
  With a timer armed the engine returns for every sequence of events: when no event is
  left, the timer fires.
\<close>

lemma engine_loop_timer_returns:
  "engine_loop skip (Some limit) st0 r es \<noteq> None"
proof (induction es arbitrary: r)
  case Nil
  show ?case by simp
next
  case (Cons e es)
  show ?case
  proof (cases "fired (Some limit) (run_elapsed r + delay e)")
    case (Some l)
    then show ?thesis by (simp add: Let_def)
  next
    case None
    show ?thesis
    proof (cases "key_event_of e")
      case None': None
      with None Cons show ?thesis by (simp add: Let_def)
    next
      case (Some ke)
      with None Cons show ?thesis
        by (cases ke) (auto simp: Let_def split: option.splits)
    qed
  qed
qed

lemma Start_spec_timer_returns:
  assumes "limit \<noteq> - 1"
  shows "Start_spec ty segs limit es \<noteq> None"
proof (cases "enter segs")
  case None
  then show ?thesis
    by (simp add: Start_spec_def)
next
  case (Some st0)
  obtain rs r es' where "engine_loop (SkipWord ty) (Some limit) st0 (start_run st0) es = Some (rs, r, es')"
    using engine_loop_timer_returns [of "SkipWord ty" limit st0 "start_run st0" es]
    by (cases "engine_loop (SkipWord ty) (Some limit) st0 (start_run st0) es") auto
  with Some assms show ?thesis
    by (simp add: Start_spec_def)
qed

end
